theory Spec2Isabelle
  imports Main "HOL-Library.Sublist"
begin

section \<open>Errors\<close>

text \<open>
  Go errors are values.  \<open>ErrApplyDiffFallback\<close> is the package-level sentinel; the
  driver compares against it by identity, so it is a constructor of its own.  Errors
  that come back from the operating system carry an \<open>errno\<close>; \<open>Errorf\<close> keeps
  the format string, the string arguments and the wrapped causes of a
  \<^verbatim>\<open>fmt.Errorf\<close> call.
\<close>

datatype errno = ENOENT | EEXIST | EINVAL | EBUSY | ENOTEMPTY | ENOTDIR | EISDIR | Errno nat

datatype error =
    ErrApplyDiffFallback
  | Errorf string "string list" "error list"
  | PathError string string errno
  | SyscallError errno
  | ExternalError string errno

section \<open>Lexical paths (Go's \<^verbatim>\<open>path\<close> package)\<close>

text \<open>
  \<^verbatim>\<open>path.Clean\<close> works on the text of a path only.  It is modelled by the
  components between slashes: empty components and \<open>.\<close> are dropped, \<open>..\<close> removes
  the component before it (at the root it is dropped, at the start of a relative path
  it is kept), and the result is written back with single slashes.  The empty path
  cleans to \<open>.\<close>.
\<close>

fun split_slash :: "string \<Rightarrow> string list" where
  "split_slash [] = [[]]"
| "split_slash (c # cs) =
     (if c = CHR ''/'' then [] # split_slash cs
      else (case split_slash cs of [] \<Rightarrow> [[c]] | w # ws \<Rightarrow> (c # w) # ws))"

fun join_slash :: "string list \<Rightarrow> string" where
  "join_slash [] = []"
| "join_slash [x] = x"
| "join_slash (x # y # ys) = x @ ''/'' @ join_slash (y # ys)"

text \<open>One component is pushed on the components cleaned so far (last component last).\<close>

definition clean_step :: "bool \<Rightarrow> string list \<Rightarrow> string \<Rightarrow> string list" where
  "clean_step rooted out c =
     (if c = [] \<or> c = ''.'' then out
      else if c = ''..'' then
        (if out \<noteq> [] \<and> last out \<noteq> ''..'' then butlast out
         else if rooted then out
         else out @ [''..''])
      else out @ [c])"

definition clean_comps :: "bool \<Rightarrow> string list \<Rightarrow> string list" where
  "clean_comps rooted cs = foldl (clean_step rooted) [] cs"

definition is_rooted :: "string \<Rightarrow> bool" where
  "is_rooted p = (p \<noteq> [] \<and> hd p = CHR ''/'')"

definition unparse :: "bool \<Rightarrow> string list \<Rightarrow> string" where
  "unparse rooted cs =
     (if rooted then CHR ''/'' # join_slash cs
      else if cs = [] then ''.'' else join_slash cs)"

definition path_Clean :: "string \<Rightarrow> string" where
  "path_Clean p = unparse (is_rooted p) (clean_comps (is_rooted p) (split_slash p))"

text \<open>
  \<^verbatim>\<open>path.Join\<close> skips the leading empty elements, joins the rest with slashes and
  cleans the result; with no non-empty element it returns the empty string.
\<close>

definition path_Join :: "string list \<Rightarrow> string" where
  "path_Join elem =
     (case dropWhile (\<lambda>e. e = []) elem of
        [] \<Rightarrow> []
      | e # es \<Rightarrow> path_Clean (join_slash (e # es)))"

text \<open>
  \<^verbatim>\<open>path.Dir\<close>: everything before the last slash, cleaned.
\<close>

definition path_Dir :: "string \<Rightarrow> string" where
  "path_Dir p = path_Clean (rev (dropWhile (\<lambda>c. c \<noteq> CHR ''/'') (rev p)))"

text \<open>
  Names and normal forms of paths.  A valid name is one path component: not empty, not
  \<open>.\<close> or \<open>..\<close>, without a slash.  The identifiers of layers are names in this
  sense.  A list of components is in normal form when \<^verbatim>\<open>path.Clean\<close> has nothing
  left to do on it.
\<close>

definition valid_name :: "string \<Rightarrow> bool" where
  "valid_name n = (n \<noteq> [] \<and> n \<noteq> ''.'' \<and> n \<noteq> ''..'' \<and> CHR ''/'' \<notin> set n)"

definition comp_ok :: "string \<Rightarrow> bool" where
  "comp_ok c = (c \<noteq> [] \<and> c \<noteq> ''.'' \<and> CHR ''/'' \<notin> set c)"

definition nf :: "bool \<Rightarrow> string list \<Rightarrow> bool" where
  "nf rooted cs =
     ((\<forall>c \<in> set cs. comp_ok c) \<and>
      ''..'' \<notin> set (if rooted then cs else dropWhile (\<lambda>c. c = ''..'') cs))"

section \<open>The file tree, the mount table and the outside world\<close>

text \<open>
  The driver touches the world through calls of the operating system and of helper
  packages.  The world is a record: the file tree (a map from clean path names to
  nodes, regular files carrying their inode number), the set of mount points, the
  trace of every call that can change the world together with its outcome, and the
  choices the driver does not control: which call fails, the random part of a
  temporary name, what the archive extraction writes, and whether \<^verbatim>\<open>os.Rename\<close> may
  replace an empty directory (it does with the Go releases before 1.8, which hand the
  call to \<^verbatim>\<open>rename(2)\<close>, and it does not with the later ones).
\<close>

datatype node = Dir | File nat | Symlink string | Special nat

datatype call =
    CallMkdirAllAs string
  | CallMkdirAs string
  | CallRemoveAll string
  | CallTempDir string string
  | CallCopyDir string string
  | CallApplyLayer string
  | CallRename string string
  | CallMount string string string string
  | CallUnmount string

record IDMap =
  ContainerID :: int
  HostID :: int
  Size :: int

record sys =
  fs :: "string \<Rightarrow> node option"
  mounts :: "string set"
  trace :: "(call \<times> errno option) list"
  fault :: "nat \<Rightarrow> errno option"
  rnd :: "nat \<Rightarrow> nat"
  partial :: "nat \<Rightarrow> string \<Rightarrow> bool"
  extracted :: "nat \<Rightarrow> string \<Rightarrow> node option"
  nbytes :: "nat \<Rightarrow> int"
  tmpdir :: string
  rootIDs :: "IDMap list \<Rightarrow> IDMap list \<Rightarrow> error + (int \<times> int)"
  formatMountLabel :: "string \<Rightarrow> string \<Rightarrow> string"
  renameOverEmptyDir :: bool

text \<open>
  The children of a directory are the paths that extend its name by a slash.  The
  root directory and the current directory are written \<open>/\<close> and \<open>.\<close>.
\<close>

definition dirprefix :: "string \<Rightarrow> string" where
  "dirprefix p = (if p = ''/'' then ''/'' else if p = ''.'' then [] else p @ ''/'')"

definition under :: "string \<Rightarrow> string \<Rightarrow> bool" where
  "under p q =
     (q = p \<or>
      (if p = ''.'' then q \<noteq> [] \<and> \<not> is_rooted q \<and> q \<noteq> ''..'' \<and> \<not> prefix ''../'' q
       else strict_prefix (dirprefix p) q))"

definition below :: "string \<Rightarrow> string \<Rightarrow> bool" where
  "below p q = (under p q \<and> q \<noteq> p)"

text \<open>The name under \<open>src\<close> that corresponds to the name \<open>q\<close> under \<open>dst\<close>.\<close>

definition rebase :: "string \<Rightarrow> string \<Rightarrow> string \<Rightarrow> string" where
  "rebase src dst q =
     (if q = dst then src else dirprefix src @ drop (length (dirprefix dst)) q)"

text \<open>
  Every call that can change the world asks the oracle \<open>fault\<close> at the position the
  call takes in the trace, and records itself there with its outcome.
\<close>

definition fault_now :: "sys \<Rightarrow> errno option" where
  "fault_now s = fault s (length (trace s))"

definition emit :: "call \<Rightarrow> errno option \<Rightarrow> sys \<Rightarrow> sys" where
  "emit c r s = s\<lparr>trace := trace s @ [(c, r)]\<rparr>"

text \<open>\<^verbatim>\<open>os.Stat\<close> and \<^verbatim>\<open>os.Lstat\<close> read the tree; they fail on a missing name.\<close>

definition os_Stat :: "sys \<Rightarrow> string \<Rightarrow> error option" where
  "os_Stat s p = (if fs s p = None then Some (PathError ''stat'' p ENOENT) else None)"

definition os_Lstat :: "sys \<Rightarrow> string \<Rightarrow> error option" where
  "os_Lstat s p = (if fs s p = None then Some (PathError ''lstat'' p ENOENT) else None)"

text \<open>
  \<^verbatim>\<open>idtools.MkdirAs\<close> and \<^verbatim>\<open>idtools.MkdirAllAs\<close> (package idtools is outside the
  sources) are taken as atomic: a failing call leaves the tree as it was, a successful
  one leaves a directory at the path, and for \<^verbatim>\<open>MkdirAllAs\<close> at each missing
  ancestor.  An entry that exists already is kept.
\<close>

definition idtools_MkdirAs :: "string \<Rightarrow> sys \<Rightarrow> error option \<times> sys" where
  "idtools_MkdirAs p s =
     (case fault_now s of
        Some e \<Rightarrow> (Some (PathError ''mkdir'' p e), emit (CallMkdirAs p) (Some e) s)
      | None \<Rightarrow>
          (None, emit (CallMkdirAs p) None
             (s\<lparr>fs := (\<lambda>q. if q = p \<and> fs s q = None then Some Dir else fs s q)\<rparr>)))"

definition idtools_MkdirAllAs :: "string \<Rightarrow> sys \<Rightarrow> error option \<times> sys" where
  "idtools_MkdirAllAs p s =
     (case fault_now s of
        Some e \<Rightarrow> (Some (PathError ''mkdir'' p e), emit (CallMkdirAllAs p) (Some e) s)
      | None \<Rightarrow>
          (None, emit (CallMkdirAllAs p) None
             (s\<lparr>fs := (\<lambda>q. if under q p \<and> fs s q = None then Some Dir else fs s q)\<rparr>)))"

text \<open>
  \<^verbatim>\<open>os.RemoveAll\<close> removes the path and everything under it.  A failing call may
  have removed a part of the subtree already (the oracle \<open>partial\<close> says which
  names).
\<close>

definition os_RemoveAll :: "string \<Rightarrow> sys \<Rightarrow> error option \<times> sys" where
  "os_RemoveAll p s =
     (case fault_now s of
        Some e \<Rightarrow>
          (Some (PathError ''unlinkat'' p e), emit (CallRemoveAll p) (Some e)
             (s\<lparr>fs := (\<lambda>q. if under p q \<and> partial s (length (trace s)) q then None
                             else fs s q)\<rparr>))
      | None \<Rightarrow>
          (None, emit (CallRemoveAll p) None
             (s\<lparr>fs := (\<lambda>q. if under p q then None else fs s q)\<rparr>)))"

definition os_IsNotExist :: "error \<Rightarrow> bool" where
  "os_IsNotExist err = (case err of PathError _ _ e \<Rightarrow> e = ENOENT | _ \<Rightarrow> False)"

text \<open>
  \<^verbatim>\<open>ioutil.TempDir dir prefix\<close> makes a new directory in \<open>dir\<close> (in the default
  temporary directory when \<open>dir\<close> is empty) whose name is the prefix followed by a
  random string of nine decimal digits (\<^verbatim>\<open>strconv.Itoa(int(1e9 + r%1e9))[1:]\<close>).
  It fails when the directory to create it in is missing or when the name is taken.
\<close>

fun itoa :: "nat \<Rightarrow> string" where
  "itoa n =
     (if n < 10 then [''0123456789'' ! n]
      else itoa (n div 10) @ [''0123456789'' ! (n mod 10)])"

definition nextSuffix :: "nat \<Rightarrow> string" where
  "nextSuffix r = tl (itoa (10 ^ 9 + r mod 10 ^ 9))"

definition tempname :: "sys \<Rightarrow> string \<Rightarrow> string \<Rightarrow> string" where
  "tempname s dir pfx =
     path_Join [if dir = [] then tmpdir s else dir, pfx @ nextSuffix (rnd s (length (trace s)))]"

definition ioutil_TempDir :: "string \<Rightarrow> string \<Rightarrow> sys \<Rightarrow> (string \<times> error option) \<times> sys" where
  "ioutil_TempDir dir pfx s =
     (let base = (if dir = [] then tmpdir s else dir);
          name = tempname s dir pfx;
          c = CallTempDir dir pfx
      in case fault_now s of
           Some e \<Rightarrow> (([], Some (PathError ''mkdir'' name e)), emit c (Some e) s)
         | None \<Rightarrow>
             if fs s base = None then
               (([], Some (PathError ''mkdir'' name ENOENT)), emit c (Some ENOENT) s)
             else if fs s name \<noteq> None then
               (([], Some (PathError ''mkdir'' name EEXIST)), emit c (Some EEXIST) s)
             else ((name, None), emit c None (s\<lparr>fs := (fs s)(name \<mapsto> Dir)\<rparr>)))"

text \<open>
  \<^verbatim>\<open>os.Rename\<close> moves the subtree at \<open>src\<close> to \<open>dst\<close> in one step, or fails and
  changes nothing.  It fails when the source is missing; when the destination is a
  directory and the Go release refuses every existing directory (\<open>EEXIST\<close>); when one
  of the two is a directory and the other is not; when the destination lies below the
  source; and when the destination is a directory that holds entries (\<open>ENOTEMPTY\<close>).
  A destination that is a file, or an empty directory, is replaced.
\<close>

definition os_Rename :: "string \<Rightarrow> string \<Rightarrow> sys \<Rightarrow> error option \<times> sys" where
  "os_Rename src dst s =
     (let fail = (\<lambda>e. (Some (PathError ''rename'' src e), emit (CallRename src dst) (Some e) s)) in
      case fault_now s of
        Some e \<Rightarrow> fail e
      | None \<Rightarrow>
      case fs s src of
        None \<Rightarrow> fail ENOENT
      | Some x \<Rightarrow>
          if fs s dst = Some Dir \<and> \<not> renameOverEmptyDir s then fail EEXIST
          else if fs s dst = Some Dir \<and> x \<noteq> Dir then fail EISDIR
          else if fs s dst \<noteq> None \<and> fs s dst \<noteq> Some Dir \<and> x = Dir then fail ENOTDIR
          else if below src dst then fail EINVAL
          else if fs s dst = Some Dir \<and> src \<noteq> dst \<and> (\<exists>q. below dst q \<and> fs s q \<noteq> None)
          then fail ENOTEMPTY
          else
            (None, emit (CallRename src dst) None
               (s\<lparr>fs := (\<lambda>q. if under dst q then fs s (rebase src dst q)
                               else if under src q then None
                               else fs s q)\<rparr>)))"

text \<open>
  \<^verbatim>\<open>chrootarchive.ApplyUncompressedLayer\<close> is the external extraction engine.  It
  works inside its destination directory: whatever it does, it does to the names
  below the destination, and the oracle \<open>extracted\<close> gives the entries it leaves
  there, on success and on failure.  On success it returns the number of bytes.
\<close>

definition chrootarchive_ApplyUncompressedLayer ::
  "string \<Rightarrow> string \<Rightarrow> IDMap list \<times> IDMap list \<Rightarrow> sys \<Rightarrow> (int \<times> error option) \<times> sys" where
  "chrootarchive_ApplyUncompressedLayer dest layer options s =
     (let n = length (trace s);
          s' = s\<lparr>fs := (\<lambda>q. if below dest q then extracted s n q else fs s q)\<rparr>
      in case fault_now s of
           Some e \<Rightarrow> ((0, Some (ExternalError ''ApplyUncompressedLayer'' e)),
                      emit (CallApplyLayer dest) (Some e) s')
         | None \<Rightarrow> ((nbytes s n, None), emit (CallApplyLayer dest) None s'))"

text \<open>
  \<^verbatim>\<open>mount.Mount\<close> and \<^verbatim>\<open>syscall.Unmount\<close>.  Unmounting a path that is not a
  mount point fails with \<open>EINVAL\<close>.
\<close>

definition mount_Mount :: "string \<Rightarrow> string \<Rightarrow> string \<Rightarrow> string \<Rightarrow> sys \<Rightarrow> error option \<times> sys" where
  "mount_Mount device target mType options s =
     (case fault_now s of
        Some e \<Rightarrow> (Some (SyscallError e), emit (CallMount device target mType options) (Some e) s)
      | None \<Rightarrow>
          (None, emit (CallMount device target mType options) None
             (s\<lparr>mounts := insert target (mounts s)\<rparr>)))"

definition syscall_Unmount :: "string \<Rightarrow> sys \<Rightarrow> error option \<times> sys" where
  "syscall_Unmount target s =
     (case fault_now s of
        Some e \<Rightarrow> (Some (SyscallError e), emit (CallUnmount target) (Some e) s)
      | None \<Rightarrow>
          if target \<notin> mounts s then
            (Some (SyscallError EINVAL), emit (CallUnmount target) (Some EINVAL) s)
          else (None, emit (CallUnmount target) None (s\<lparr>mounts := mounts s - {target}\<rparr>)))"

section \<open>The driver\<close>

text \<open>
  The counter of an active mount is a Go \<^verbatim>\<open>int\<close>, 64 bits wide on the platforms the
  driver is built for: \<open>int64\<close> wraps a mathematical integer into that range.
\<close>

definition int64 :: "int \<Rightarrow> int" where
  "int64 x = (x + 2 ^ 63) mod 2 ^ 64 - 2 ^ 63"

record ActiveMount =
  count :: int
  path :: string
  mounted :: bool

record Driver =
  home :: string
  active :: "string \<Rightarrow> ActiveMount option"
  uidMaps :: "IDMap list"
  gidMaps :: "IDMap list"

definition dir :: "Driver \<Rightarrow> string \<Rightarrow> string" where
  "dir d ident = path_Join [home d, ident]"

definition Exists :: "Driver \<Rightarrow> string \<Rightarrow> sys \<Rightarrow> bool" where
  "Exists d ident s = (os_Stat s (dir d ident) = None)"

definition Get :: "Driver \<Rightarrow> string \<Rightarrow> string \<Rightarrow> sys \<Rightarrow> (string \<times> error option) \<times> Driver \<times> sys" where
  "Get d ident mountLabel s =
     (case active d ident of
        Some mntinfo \<Rightarrow>
          ((path mntinfo, None),
           d\<lparr>active := (active d)(ident \<mapsto> mntinfo\<lparr>count := int64 (count mntinfo + 1)\<rparr>)\<rparr>, s)
      | None \<Rightarrow>
          let dir = dir d ident in
          if os_Stat s dir \<noteq> None then
            (([], Some (Errorf ''links: Directory %s is not present'' [dir] [])), d, s)
          else
          let rootDir = path_Join [dir, ''root''] in
          if os_Stat s rootDir \<noteq> None then
            (([], Some (Errorf ''links: Directory %s is not present'' [rootDir] [])), d, s)
          else
          let mntDir = path_Join [dir, ''mnt''] in
          if os_Stat s mntDir \<noteq> None then
            ((rootDir, None),
             d\<lparr>active := (active d)(ident \<mapsto> \<lparr>count = 1, path = rootDir, mounted = False\<rparr>)\<rparr>, s)
          else
          let mountOpts = formatMountLabel s ''bind'' mountLabel in
          case mount_Mount rootDir mntDir ''bind'' mountOpts s of
            (Some err, s') \<Rightarrow>
              (([], Some (Errorf ''links: Failed to bind mount %s on %s: %v'' [rootDir, mntDir] [err])),
               d, s')
          | (None, s') \<Rightarrow>
              ((mntDir, None),
               d\<lparr>active := (active d)(ident \<mapsto> \<lparr>count = 1, path = mntDir, mounted = True\<rparr>)\<rparr>, s'))"

definition Put :: "Driver \<Rightarrow> string \<Rightarrow> sys \<Rightarrow> error option \<times> Driver \<times> sys" where
  "Put d ident s =
     (case active d ident of
        None \<Rightarrow>
          if Exists d ident s then
            let mntDir = path_Join [dir d ident, ''mnt''] in
            if Exists d mntDir s then (None, d, snd (syscall_Unmount mntDir s))
            else (None, d, s)
          else (None, d, s)
      | Some mntinfo0 \<Rightarrow>
          let mntinfo = mntinfo0\<lparr>count := int64 (count mntinfo0 - 1)\<rparr> in
          if count mntinfo > 0 then (None, d\<lparr>active := (active d)(ident \<mapsto> mntinfo)\<rparr>, s)
          else if mounted mntinfo then
            (case syscall_Unmount (path mntinfo) s of
               (err, s') \<Rightarrow> (err, d\<lparr>active := (active d)(ident := None)\<rparr>, s'))
          else (None, d\<lparr>active := (active d)(ident := None)\<rparr>, s))"

text \<open>
  \<^verbatim>\<open>Remove\<close> deletes the directory of a layer; a missing directory is no error.
\<close>

definition Remove :: "Driver \<Rightarrow> string \<Rightarrow> sys \<Rightarrow> error option \<times> sys" where
  "Remove d ident s =
     (case os_RemoveAll (dir d ident) s of
        (Some err, s') \<Rightarrow> if \<not> os_IsNotExist err then (Some err, s') else (None, s')
      | (None, s') \<Rightarrow> (None, s'))"

text \<open>
  Modelled from the spec: \<^verbatim>\<open>copyDir\<close> with the flag \<^verbatim>\<open>copyHardlink\<close>, the Hardlink
  Copy Engine of the specification (section 4.1), whose source file is missing.  Every
  entry below the source is reproduced at the corresponding name below the destination:
  a regular file as a hard link (the same inode), a directory as a new directory, a
  symbolic link verbatim, a special file with the same type.  A failing copy does not
  roll back: it leaves a part of the entries behind (the oracle \<open>partial\<close> says
  which).
\<close>

datatype copyFlags = copyHardlink

fun copy_node :: "copyFlags \<Rightarrow> node \<Rightarrow> node" where
  "copy_node copyHardlink (File i) = File i"
| "copy_node copyHardlink Dir = Dir"
| "copy_node copyHardlink (Symlink t) = Symlink t"
| "copy_node copyHardlink (Special k) = Special k"

definition copied :: "copyFlags \<Rightarrow> string \<Rightarrow> string \<Rightarrow> (string \<Rightarrow> bool) \<Rightarrow> sys \<Rightarrow> string \<Rightarrow> node option" where
  "copied flags src dst done s q =
     (if below dst q \<and> done q then
        (case fs s (rebase src dst q) of
           Some x \<Rightarrow> Some (copy_node flags x)
         | None \<Rightarrow> fs s q)
      else fs s q)"

definition copyDir :: "string \<Rightarrow> string \<Rightarrow> copyFlags \<Rightarrow> sys \<Rightarrow> error option \<times> sys" where
  "copyDir src dst flags s =
     (case fault_now s of
        Some e \<Rightarrow>
          (Some (ExternalError ''copyDir'' e), emit (CallCopyDir src dst) (Some e)
             (s\<lparr>fs := copied flags src dst (partial s (length (trace s))) s\<rparr>))
      | None \<Rightarrow>
          (None, emit (CallCopyDir src dst) None
             (s\<lparr>fs := copied flags src dst (\<lambda>q. True) s\<rparr>)))"

text \<open>
  \<^verbatim>\<open>Create\<close>.  The deferred function of the source runs after the rest of the
  function has set the result: \<open>Create_rest\<close> is the code after the \<^verbatim>\<open>defer\<close>
  statement, and \<open>Create\<close> applies the deferred clean up to its result.
\<close>

definition Create_rest :: "Driver \<Rightarrow> string \<Rightarrow> string \<Rightarrow> sys \<Rightarrow> error option \<times> sys" where
  "Create_rest d dir' parent s =
     (if parent = [] then idtools_MkdirAs (path_Join [dir', ''root'']) s
      else
        let parentDir = dir d parent in
        case os_Lstat s parentDir of
          Some err \<Rightarrow> (Some err, s)
        | None \<Rightarrow>
        let parentDirRoot = path_Join [parentDir, ''root''] in
        case os_Lstat s parentDirRoot of
          Some err \<Rightarrow> (Some err, s)
        | None \<Rightarrow>
        case idtools_MkdirAs (path_Join [dir', ''root'']) s of
          (Some err, s1) \<Rightarrow> (Some err, s1)
        | (None, s1) \<Rightarrow>
        case idtools_MkdirAs (path_Join [dir', ''mnt'']) s1 of
          (Some err, s2) \<Rightarrow> (Some err, s2)
        | (None, s2) \<Rightarrow>
        let childDirRoot = path_Join [dir', ''root''] in
        copyDir parentDirRoot childDirRoot copyHardlink s2)"

definition Create :: "Driver \<Rightarrow> string \<Rightarrow> string \<Rightarrow> string \<Rightarrow> sys \<Rightarrow> error option \<times> sys" where
  "Create d ident parent mountLabel s =
     (let dir' = dir d ident in
      case rootIDs s (uidMaps d) (gidMaps d) of
        Inl err \<Rightarrow> (Some err, s)
      | Inr ids \<Rightarrow>
      case idtools_MkdirAllAs (path_Dir dir') s of
        (Some err, s1) \<Rightarrow> (Some err, s1)
      | (None, s1) \<Rightarrow>
      case idtools_MkdirAs dir' s1 of
        (Some err, s2) \<Rightarrow> (Some err, s2)
      | (None, s2) \<Rightarrow>
      case Create_rest d dir' parent s2 of
        (Some retErr, s3) \<Rightarrow> (Some retErr, snd (os_RemoveAll dir' s3))
      | (None, s3) \<Rightarrow> (None, s3))"

text \<open>
  \<^verbatim>\<open>ApplyDiff\<close>, with its deferred function in the same way: \<open>ApplyDiff_rest\<close> is
  the code after the \<^verbatim>\<open>defer\<close> statement.  A \<^verbatim>\<open>return 0, err\<close> sets the named
  results before the deferred function reads \<^verbatim>\<open>err\<close>, also where the inner
  \<^verbatim>\<open>err\<close> of the rename shadows the outer one.
\<close>

definition ApplyDiff_rest ::
  "Driver \<Rightarrow> string \<Rightarrow> string \<Rightarrow> string \<Rightarrow> string \<Rightarrow> sys \<Rightarrow> (int \<times> error option) \<times> sys" where
  "ApplyDiff_rest d dir' parentRootDir tmpRootDir diff s =
     (case copyDir parentRootDir tmpRootDir copyHardlink s of
        (Some err, s1) \<Rightarrow> ((0, Some err), s1)
      | (None, s1) \<Rightarrow>
      case chrootarchive_ApplyUncompressedLayer tmpRootDir diff (uidMaps d, gidMaps d) s1 of
        ((size', Some err), s2) \<Rightarrow> ((0, Some err), s2)
      | ((size', None), s2) \<Rightarrow>
      let rootDir = path_Join [dir', ''root''] in
      case os_Rename tmpRootDir rootDir s2 of
        (Some err, s3) \<Rightarrow> ((0, Some err), s3)
      | (None, s3) \<Rightarrow> ((size', None), s3))"

definition ApplyDiff ::
  "Driver \<Rightarrow> string \<Rightarrow> string \<Rightarrow> string \<Rightarrow> sys \<Rightarrow> (int \<times> error option) \<times> sys" where
  "ApplyDiff d ident parent diff s =
     (let dir' = dir d ident in
      if parent = [] then ((0, Some ErrApplyDiffFallback), s)
      else
      let parentRootDir = path_Join [dir d parent, ''root''] in
      if os_Stat s parentRootDir \<noteq> None then ((0, Some ErrApplyDiffFallback), s)
      else
      case ioutil_TempDir dir' ''tmproot'' s of
        ((tmpRootDir, Some err), s1) \<Rightarrow> ((0, Some err), s1)
      | ((tmpRootDir, None), s1) \<Rightarrow>
      case ApplyDiff_rest d dir' parentRootDir tmpRootDir diff s1 of
        ((size', Some err), s2) \<Rightarrow> ((size', Some err), snd (os_RemoveAll tmpRootDir s2))
      | ((size', None), s2) \<Rightarrow>
          ((size', None), snd (os_RemoveAll (path_Join [dir', ''mnt'']) s2)))"

text \<open>
  The steps of a successful \<^verbatim>\<open>ApplyDiff\<close> before the rename: the temporary directory with
  the hard-linked copy of the parent's root, and the extraction into it.
\<close>

definition staged :: "Driver \<Rightarrow> string \<Rightarrow> string \<Rightarrow> sys \<Rightarrow> sys" where
  "staged d ident parent s =
     snd (copyDir (path_Join [dir d parent, ''root'']) (tempname s (dir d ident) ''tmproot'')
            copyHardlink (snd (ioutil_TempDir (dir d ident) ''tmproot'' s)))"

definition extraction :: "Driver \<Rightarrow> string \<Rightarrow> string \<Rightarrow> string \<Rightarrow> sys \<Rightarrow> (int \<times> error option) \<times> sys" where
  "extraction d ident parent diff s =
     chrootarchive_ApplyUncompressedLayer (tempname s (dir d ident) ''tmproot'') diff
       (uidMaps d, gidMaps d) (staged d ident parent s)"

section \<open>The wrapper with a custom \<^verbatim>\<open>ApplyDiff\<close>\<close>

text \<open>
  \<^verbatim>\<open>naiveDiffDriverWithApply\<close> holds two interface values: the generic driver it
  embeds and the driver with the custom \<^verbatim>\<open>ApplyDiff\<close>.  Of each, the method the
  wrapper calls is kept, as a function on the state of the world.
\<close>

record 'w naiveDiffDriverWithApply =
  Driver_ApplyDiff :: "string \<Rightarrow> string \<Rightarrow> string \<Rightarrow> 'w \<Rightarrow> (int \<times> error option) \<times> 'w"
  applyDiff :: "string \<Rightarrow> string \<Rightarrow> string \<Rightarrow> 'w \<Rightarrow> (int \<times> error option) \<times> 'w"

definition naiveDiffDriverWithApply_ApplyDiff ::
  "'w naiveDiffDriverWithApply \<Rightarrow> string \<Rightarrow> string \<Rightarrow> string \<Rightarrow> 'w \<Rightarrow> (int \<times> error option) \<times> 'w" where
  "naiveDiffDriverWithApply_ApplyDiff d ident parent diff w =
     (case applyDiff d ident parent diff w of
        ((b, err), w') \<Rightarrow>
          if err = Some ErrApplyDiffFallback then Driver_ApplyDiff d ident parent diff w'
          else ((b, err), w'))"

text \<open>
  \<^verbatim>\<open>NaiveDiffDriverWithApply driver\<close> builds the wrapper; \<open>naive\<close> stands for the
  \<^verbatim>\<open>ApplyDiff\<close> of \<^verbatim>\<open>graphdriver.NewNaiveDiffDriver(driver, uidMaps, gidMaps)\<close>, the
  generic driver, which is outside the sources.
\<close>

definition NaiveDiffDriverWithApply ::
  "(string \<Rightarrow> string \<Rightarrow> string \<Rightarrow> 'w \<Rightarrow> (int \<times> error option) \<times> 'w) \<Rightarrow>
   (string \<Rightarrow> string \<Rightarrow> string \<Rightarrow> 'w \<Rightarrow> (int \<times> error option) \<times> 'w) \<Rightarrow>
   'w naiveDiffDriverWithApply" where
  "NaiveDiffDriverWithApply driver naive = \<lparr>Driver_ApplyDiff = naive, applyDiff = driver\<rparr>"

text \<open>
  \<^verbatim>\<open>Init\<close> makes the home directory and returns a driver with an empty table of
  active mounts (the source wraps it with \<^verbatim>\<open>NaiveDiffDriverWithApply\<close>; the wrapper
  passes every call but \<^verbatim>\<open>ApplyDiff\<close> through).
\<close>

definition os_IsExist :: "error \<Rightarrow> bool" where
  "os_IsExist err = (case err of PathError _ _ e \<Rightarrow> e = EEXIST | _ \<Rightarrow> False)"

definition Init :: "string \<Rightarrow> string list \<Rightarrow> IDMap list \<Rightarrow> IDMap list \<Rightarrow> sys \<Rightarrow> (error + Driver) \<times> sys" where
  "Init home' options uidMaps' gidMaps' s =
     (case rootIDs s uidMaps' gidMaps' of
        Inl err \<Rightarrow> (Inl err, s)
      | Inr ids \<Rightarrow>
      case idtools_MkdirAllAs home' s of
        (Some err, s') \<Rightarrow>
          if \<not> os_IsExist err then (Inl err, s')
          else (Inr \<lparr>home = home', active = Map.empty, uidMaps = uidMaps', gidMaps = gidMaps'\<rparr>, s')
      | (None, s') \<Rightarrow>
          (Inr \<lparr>home = home', active = Map.empty, uidMaps = uidMaps', gidMaps = gidMaps'\<rparr>, s'))"

section \<open>Sequences of driver calls\<close>

datatype op =
    OpCreate string string string
  | OpRemove string
  | OpGet string string
  | OpPut string
  | OpApplyDiff string string string

fun exec :: "op \<Rightarrow> Driver \<times> sys \<Rightarrow> Driver \<times> sys" where
  "exec (OpCreate i p l) (d, s) = (d, snd (Create d i p l s))"
| "exec (OpRemove i) (d, s) = (d, snd (Remove d i s))"
| "exec (OpGet i l) (d, s) = snd (Get d i l s)"
| "exec (OpPut i) (d, s) = snd (Put d i s)"
| "exec (OpApplyDiff i p diff) (d, s) = (d, snd (ApplyDiff d i p diff s))"

fun run :: "op list \<Rightarrow> Driver \<times> sys \<Rightarrow> Driver \<times> sys" where
  "run [] st = st"
| "run (x # xs) st = run xs (exec x st)"




text \<open>Every record of the table counts at least one and at most \<open>k\<close> acquisitions.\<close>

definition table_ok :: "nat \<Rightarrow> Driver \<Rightarrow> bool" where
  "table_ok k d = (\<forall>i r. active d i = Some r \<longrightarrow> 1 \<le> count r \<and> count r \<le> int k)"

text \<open>
  No call of the driver changes the choices of the outside world, and each call that can
  change the world adds one entry to the trace.
\<close>

definition same_env :: "sys \<Rightarrow> sys \<Rightarrow> bool" where
  "same_env s s' =
     (fault s' = fault s \<and> rnd s' = rnd s \<and> partial s' = partial s \<and>
      extracted s' = extracted s \<and> nbytes s' = nbytes s \<and> tmpdir s' = tmpdir s \<and>
      rootIDs s' = rootIDs s \<and> formatMountLabel s' = formatMountLabel s \<and>
      renameOverEmptyDir s' = renameOverEmptyDir s)"

definition advances :: "sys \<Rightarrow> sys \<Rightarrow> bool" where
  "advances s s' = (same_env s s' \<and> length (trace s') = Suc (length (trace s)))"

text \<open>A world in which no call fails.\<close>

definition quiet :: "sys \<Rightarrow> bool" where
  "quiet s = (\<forall>n. fault s n = None)"

section \<open>A small world for concrete runs\<close>

text \<open>
  The home directory \<open>/h\<close> holds a base layer \<open>p\<close> (a \<open>root\<close> with one file) and
  a container layer \<open>a\<close> (a \<open>root\<close> with a hard link to that file, and a mount
  point \<open>mnt\<close>).  No call fails
  unless a run says so.
\<close>

definition ex_fs :: "string \<Rightarrow> node option" where
  "ex_fs = map_of
     [(''/h'', Dir),
      (''/h/p'', Dir), (''/h/p/root'', Dir), (''/h/p/root/f'', File 7),
      (''/h/a'', Dir), (''/h/a/root'', Dir), (''/h/a/root/f'', File 7), (''/h/a/mnt'', Dir)]"

definition ex_sys :: sys where
  "ex_sys = \<lparr>fs = ex_fs, mounts = {}, trace = [], fault = (\<lambda>n. None), rnd = (\<lambda>n. 7),
     partial = (\<lambda>n q. False), extracted = (\<lambda>n q. None), nbytes = (\<lambda>n. 0),
     tmpdir = ''/tmp'', rootIDs = (\<lambda>u g. Inr (0, 0)), formatMountLabel = (\<lambda>src l. src),
     renameOverEmptyDir = False\<rparr>"

definition ex_driver :: Driver where
  "ex_driver = \<lparr>home = ''/h'', active = Map.empty, uidMaps = [], gidMaps = []\<rparr>"

definition ex_ops :: "op list" where
  "ex_ops = [OpGet ''a'' [], OpGet ''a'' ''label'', OpPut ''a'']"

text \<open>
  Variants for \<^verbatim>\<open>ApplyDiff\<close>.  The extraction leaves two files in the temporary
  directory and reports 42 bytes.  In the first variant the layer \<open>a\<close> has no
  \<open>root\<close> yet; in the second the removal of \<open>mnt\<close> (the fifth call) fails as
  well; in the third the layer has its \<open>root\<close> and the extraction (the third call)
  fails; in the fourth the removal of the temporary directory (the fourth call) fails
  as well.
\<close>

definition ex_extracted :: "nat \<Rightarrow> string \<Rightarrow> node option" where
  "ex_extracted n = map_of
     [(''/h/a/tmproot000000007/f'', File 7), (''/h/a/tmproot000000007/g'', File 9)]"




definition ex_sys_broken :: sys where
  "ex_sys_broken =
     ex_sys\<lparr>extracted := ex_extracted, fault := (\<lambda>n. if n = 2 then Some (Errno 5) else None)\<rparr>"

definition ex_sys_stuck :: sys where
  "ex_sys_stuck =
     ex_sys\<lparr>extracted := ex_extracted,
            fault := (\<lambda>n. if n = 2 then Some (Errno 5) else if n = 3 then Some EBUSY else None)\<rparr>"

text \<open>
  A variant for \<^verbatim>\<open>Create\<close>: the copy (the fifth call) fails after it has linked one
  file, and the removal of the directory of the layer (the sixth call) fails, too.
\<close>

definition ex_sys_copy_fails :: sys where
  "ex_sys_copy_fails =
     ex_sys\<lparr>fault := (\<lambda>n. if n = 4 then Some (Errno 5) else if n = 5 then Some EBUSY else None),
            partial := (\<lambda>n q. n = 4 \<and> q = ''/h/b/root/f'')\<rparr>"

section \<open>Basic facts\<close>

lemmas path_defs =
  path_Join_def path_Clean_def is_rooted_def clean_comps_def clean_step_def unparse_def

lemmas sys_defs =
  os_Stat_def os_Lstat_def fault_now_def emit_def mount_Mount_def syscall_Unmount_def

lemmas ex_defs = ex_fs_def ex_sys_def ex_driver_def

lemma int64_id: "- (2 ^ 63) \<le> x \<Longrightarrow> x < 2 ^ 63 \<Longrightarrow> int64 x = x"
  unfolding int64_def by (simp add: mod_pos_pos_trivial)

subsection \<open>What \<^verbatim>\<open>Get\<close> and \<^verbatim>\<open>Put\<close> do to the table\<close>

lemma Get_active_other: "j \<noteq> i \<Longrightarrow> active (fst (snd (Get d i l s))) j = active d j"
  by (simp add: Get_def Let_def split: option.splits prod.splits)

lemma Put_active_other: "j \<noteq> i \<Longrightarrow> active (fst (snd (Put d i s))) j = active d j"
  by (simp add: Put_def Let_def split: option.splits prod.splits)

lemma Get_hit:
  "active d i = Some r \<Longrightarrow>
   Get d i l s =
     ((path r, None), d\<lparr>active := (active d)(i \<mapsto> r\<lparr>count := int64 (count r + 1)\<rparr>)\<rparr>, s)"
  by (simp add: Get_def)

lemma Get_miss:
  "active d i = None \<Longrightarrow>
   active (fst (snd (Get d i l s))) i = None \<or>
   (\<exists>p m. active (fst (snd (Get d i l s))) i = Some \<lparr>count = 1, path = p, mounted = m\<rparr>)"
  by (auto simp: Get_def Let_def split: option.splits prod.splits)

lemma Put_hit:
  "active d i = Some r \<Longrightarrow>
   active (fst (snd (Put d i s))) i =
     (if 0 < int64 (count r - 1) then Some (r\<lparr>count := int64 (count r - 1)\<rparr>) else None)"
  by (simp add: Put_def Let_def split: option.splits prod.splits)

lemma Put_miss: "active d i = None \<Longrightarrow> fst (snd (Put d i s)) = d"
  by (simp add: Put_def Let_def split: option.splits prod.splits)

lemma Unmount_ok_iff:
  "fst (syscall_Unmount p s) = None \<longleftrightarrow> fault_now s = None \<and> p \<in> mounts s"
  by (simp add: syscall_Unmount_def split: option.splits)

section \<open>Facts about paths\<close>

text \<open>\<^verbatim>\<open>path.Clean\<close> is idempotent, and joining a name to a clean path appends it.\<close>

lemma split_slash_nonempty: "split_slash s \<noteq> []"
  by (induction s) (auto split: list.splits)

lemma split_slash_free: "c \<in> set (split_slash s) \<Longrightarrow> CHR ''/'' \<notin> set c"
proof (induction s arbitrary: c)
  case Nil
  then show ?case by simp
next
  case (Cons a s)
  show ?case
  proof (cases "a = CHR ''/''")
    case True
    with Cons show ?thesis by auto
  next
    case False
    from split_slash_nonempty [of s] obtain w ws where w: "split_slash s = w # ws"
      by (cases "split_slash s") auto
    with Cons False show ?thesis by auto
  qed
qed

lemma split_slash_single: "CHR ''/'' \<notin> set n \<Longrightarrow> split_slash n = [n]"
  by (induction n) auto

lemma split_slash_append:
  "split_slash (a @ CHR ''/'' # b) = split_slash a @ split_slash b"
proof (induction a)
  case Nil
  then show ?case by simp
next
  case (Cons x a)
  from split_slash_nonempty [of a] obtain w ws where w: "split_slash a = w # ws"
    by (cases "split_slash a") auto
  with Cons show ?case by simp
qed

lemma split_join_slash:
  "cs \<noteq> [] \<Longrightarrow> \<forall>c \<in> set cs. CHR ''/'' \<notin> set c \<Longrightarrow> split_slash (join_slash cs) = cs"
proof (induction cs rule: join_slash.induct)
  case 1
  then show ?case by simp
next
  case (2 x)
  then show ?case by (simp add: split_slash_single)
next
  case (3 x y ys)
  then show ?case by (simp add: split_slash_append split_slash_single)
qed

lemma join_slash_snoc:
  "join_slash (cs @ [n]) = (if cs = [] then n else join_slash cs @ ''/'' @ n)"
  by (induction cs rule: join_slash.induct) auto

lemma clean_comps_snoc:
  "clean_comps r (cs @ [c]) = clean_step r (clean_comps r cs) c"
  by (simp add: clean_comps_def)

lemma dropWhile_butlast_subset: "set (dropWhile P (butlast xs)) \<subseteq> set (dropWhile P xs)"
  by (induction xs) (auto dest: in_set_butlastD)

lemma nf_butlast: "nf r cs \<Longrightarrow> nf r (butlast cs)"
  using dropWhile_butlast_subset [of "\<lambda>c. c = ''..''" cs]
  by (auto simp: nf_def dest: in_set_butlastD)

lemma nf_last_dotdot:
  assumes "nf False cs" "cs \<noteq> []" "last cs = ''..''"
  shows "\<forall>c \<in> set cs. c = ''..''"
proof (rule ccontr)
  assume "\<not> (\<forall>c \<in> set cs. c = ''..'')"
  then have "dropWhile (\<lambda>c. c = ''..'') cs \<noteq> []" by (simp add: dropWhile_eq_Nil_conv)
  then have "last (dropWhile (\<lambda>c. c = ''..'') cs) = last cs"
    by (metis last_appendR takeWhile_dropWhile_id)
  with assms \<open>dropWhile (\<lambda>c. c = ''..'') cs \<noteq> []\<close> show False
    by (metis (full_types) last_in_set nf_def)
qed

lemma nf_clean_step:
  assumes "nf r out" "CHR ''/'' \<notin> set c"
  shows "nf r (clean_step r out c)"
proof -
  consider "c = [] \<or> c = ''.''" | "c = ''..''" | "c \<noteq> []" "c \<noteq> ''.''" "c \<noteq> ''..''" by blast
  then show ?thesis
  proof cases
    case 1
    then show ?thesis using assms by (auto simp: clean_step_def)
  next
    case 2
    show ?thesis
    proof (cases "out \<noteq> [] \<and> last out \<noteq> ''..''")
      case True
      then show ?thesis using 2 assms nf_butlast by (simp add: clean_step_def)
    next
      case False
      show ?thesis
      proof (cases r)
        case True
        then show ?thesis using 2 False assms by (auto simp: clean_step_def)
      next
        case nr: False
        have "\<forall>x \<in> set out. x = ''..''"
          using nf_last_dotdot [of out] False assms nr by (cases "out = []") auto
        then have "dropWhile (\<lambda>c. c = ''..'') (out @ [''..'']) = []"
          by (simp add: dropWhile_eq_Nil_conv)
        then show ?thesis using 2 False nr assms
          by (auto simp: clean_step_def nf_def comp_ok_def)
      qed
    qed
  next
    case 3
    have "clean_step r out c = out @ [c]" using 3 by (simp add: clean_step_def)
    moreover have "nf r (out @ [c])"
    proof (cases r)
      case True
      then show ?thesis using assms 3 by (auto simp: nf_def comp_ok_def)
    next
      case False
      then show ?thesis using assms 3
        by (auto simp: nf_def comp_ok_def dropWhile_append split: if_splits)
    qed
    ultimately show ?thesis by simp
  qed
qed

lemma nf_foldl:
  "nf r out \<Longrightarrow> \<forall>c \<in> set cs. CHR ''/'' \<notin> set c \<Longrightarrow> nf r (foldl (clean_step r) out cs)"
  by (induction cs arbitrary: out) (auto simp: nf_clean_step)

lemma nf_clean_comps: "\<forall>c \<in> set cs. CHR ''/'' \<notin> set c \<Longrightarrow> nf r (clean_comps r cs)"
  unfolding clean_comps_def by (rule nf_foldl) (simp_all add: nf_def)

lemma foldl_nf:
  "nf r (out @ cs) \<Longrightarrow> foldl (clean_step r) out cs = out @ cs"
proof (induction cs arbitrary: out)
  case Nil
  then show ?case by simp
next
  case (Cons c cs)
  have ok: "comp_ok c" using Cons.prems by (simp add: nf_def)
  have "clean_step r out c = out @ [c]"
  proof (cases "c = ''..''")
    case False
    then show ?thesis using ok by (simp add: clean_step_def comp_ok_def)
  next
    case True
    have nr: "\<not> r" using Cons.prems True by (auto simp: nf_def)
    have "\<forall>x \<in> set out. x = ''..''"
    proof (rule ccontr)
      assume "\<not> (\<forall>x \<in> set out. x = ''..'')"
      then have "dropWhile (\<lambda>c. c = ''..'') (out @ c # cs) = dropWhile (\<lambda>c. c = ''..'') out @ c # cs"
        by (auto simp: dropWhile_append1)
      with Cons.prems nr True show False by (simp add: nf_def)
    qed
    then have "out = [] \<or> last out = ''..''" by (cases "out = []") auto
    then show ?thesis using True nr by (auto simp: clean_step_def)
  qed
  moreover have "nf r ((out @ [c]) @ cs)" using Cons.prems by simp
  ultimately show ?case using Cons.IH [of "out @ [c]"] by simp
qed

lemma clean_comps_nf: "nf r cs \<Longrightarrow> clean_comps r cs = cs"
  unfolding clean_comps_def using foldl_nf [of r "[]" cs] by simp

lemma join_slash_hd:
  "cs \<noteq> [] \<Longrightarrow> hd cs \<noteq> [] \<Longrightarrow> join_slash cs \<noteq> [] \<and> hd (join_slash cs) = hd (hd cs)"
  by (induction cs rule: join_slash.induct) auto

lemma is_rooted_unparse: "nf r cs \<Longrightarrow> is_rooted (unparse r cs) = r"
proof (cases r)
  case True
  then show ?thesis by (simp add: is_rooted_def unparse_def)
next
  case False
  assume n: "nf r cs"
  show ?thesis
  proof (cases cs)
    case Nil
    then show ?thesis using False by (simp add: is_rooted_def unparse_def)
  next
    case (Cons c cs')
    then have "comp_ok c" using n by (simp add: nf_def)
    then have "c \<noteq> []" "hd c \<noteq> CHR ''/''"
      by (auto simp: comp_ok_def) (metis hd_in_set)
    then show ?thesis using False Cons join_slash_hd [of cs]
      by (simp add: is_rooted_def unparse_def)
  qed
qed

lemma clean_comps_split_unparse:
  assumes "nf r cs"
  shows "clean_comps r (split_slash (unparse r cs)) = cs"
proof -
  have sf: "\<forall>c \<in> set cs. CHR ''/'' \<notin> set c" using assms by (auto simp: nf_def comp_ok_def)
  show ?thesis
  proof (cases "cs = []")
    case True
    then show ?thesis
      by (cases r) (simp_all add: unparse_def clean_comps_def clean_step_def)
  next
    case False
    then have sj: "split_slash (join_slash cs) = cs" using sf by (rule split_join_slash)
    show ?thesis
    proof (cases r)
      case True
      then have "clean_comps r (split_slash (unparse r cs)) = foldl (clean_step r) [] ([] # cs)"
        using sj by (simp add: unparse_def clean_comps_def)
      also have "\<dots> = clean_comps r cs" by (simp add: clean_comps_def clean_step_def)
      finally show ?thesis using assms by (simp add: clean_comps_nf)
    next
      case nr: False
      then show ?thesis using False sj assms by (simp add: unparse_def clean_comps_nf)
    qed
  qed
qed

lemma path_Clean_idem: "path_Clean (path_Clean p) = path_Clean p"
proof -
  let ?r = "is_rooted p"
  let ?cs = "clean_comps ?r (split_slash p)"
  have n: "nf ?r ?cs" by (rule nf_clean_comps) (auto dest: split_slash_free)
  have "path_Clean (unparse ?r ?cs) = unparse ?r ?cs"
    unfolding path_Clean_def [of "unparse ?r ?cs"]
    by (simp only: is_rooted_unparse [OF n] clean_comps_split_unparse [OF n])
  then show ?thesis by (simp add: path_Clean_def)
qed

declare itoa.simps [simp del]

lemma nf_unparse_special:
  assumes "nf r cs"
  shows "unparse r cs = ''/'' \<longleftrightarrow> r \<and> cs = []" and "unparse r cs = ''.'' \<longleftrightarrow> \<not> r \<and> cs = []"
proof -
  have ne: "cs \<noteq> [] \<Longrightarrow> join_slash cs \<noteq> [] \<and> hd (join_slash cs) = hd (hd cs)"
    using assms join_slash_hd [of cs] by (cases cs) (auto simp: nf_def comp_ok_def)
  have hd_ok: "cs \<noteq> [] \<Longrightarrow> hd (hd cs) \<noteq> CHR ''/''"
    using assms by (cases cs) (auto simp: nf_def comp_ok_def, metis hd_in_set)
  show "unparse r cs = ''/'' \<longleftrightarrow> r \<and> cs = []"
    using ne hd_ok by (cases "cs = []") (auto simp: unparse_def)
  have nodot: "cs \<noteq> [] \<Longrightarrow> join_slash cs \<noteq> ''.''"
  proof (cases cs rule: join_slash.cases)
    case (2 x)
    then show ?thesis using assms by (simp add: nf_def comp_ok_def)
  next
    case (3 x y ys)
    then have "x \<noteq> []" using assms by (simp add: nf_def comp_ok_def)
    then show ?thesis using 3 by (cases x) auto
  qed simp
  show "unparse r cs = ''.'' \<longleftrightarrow> \<not> r \<and> cs = []"
    using nodot by (cases "cs = []") (auto simp: unparse_def)
qed

lemma path_Join2:
  assumes "valid_name n" "x \<noteq> []"
  shows "path_Join [x, n] = dirprefix (path_Clean x) @ n"
proof -
  let ?r = "is_rooted x"
  let ?cs = "clean_comps ?r (split_slash x)"
  have n: "nf ?r ?cs" by (rule nf_clean_comps) (auto dest: split_slash_free)
  have sf: "CHR ''/'' \<notin> set n" using assms by (simp add: valid_name_def)
  have r: "is_rooted (x @ CHR ''/'' # n) = ?r" using assms by (simp add: is_rooted_def)
  have "clean_comps ?r (split_slash (x @ CHR ''/'' # n)) = clean_step ?r ?cs n"
    using sf by (simp add: split_slash_append split_slash_single clean_comps_snoc)
  also have "\<dots> = ?cs @ [n]" using assms by (simp add: clean_step_def valid_name_def)
  finally have c: "clean_comps ?r (split_slash (x @ CHR ''/'' # n)) = ?cs @ [n]" .
  have "path_Join [x, n] = path_Clean (x @ CHR ''/'' # n)"
    using assms by (simp add: path_Join_def)
  also have "\<dots> = unparse ?r (?cs @ [n])"
    by (simp only: path_Clean_def [of "x @ CHR ''/'' # n"] r c)
  also have "\<dots> = dirprefix (unparse ?r ?cs) @ n"
  proof (cases "?cs = []")
    case True
    then show ?thesis by (simp add: unparse_def dirprefix_def)
  next
    case False
    with nf_unparse_special [OF n] have "unparse ?r ?cs \<noteq> ''/''" "unparse ?r ?cs \<noteq> ''.''"
      by auto
    then have "dirprefix (unparse ?r ?cs) = unparse ?r ?cs @ ''/''"
      by (simp add: dirprefix_def)
    moreover have "unparse ?r (?cs @ [n]) = unparse ?r ?cs @ ''/'' @ n"
      using False by (cases "is_rooted x") (simp_all add: unparse_def join_slash_snoc)
    ultimately show ?thesis by simp
  qed
  finally show ?thesis by (simp add: path_Clean_def)
qed

lemma path_Join2_clean:
  "valid_name n \<Longrightarrow> x \<noteq> [] \<Longrightarrow> path_Clean x = x \<Longrightarrow> path_Join [x, n] = dirprefix x @ n"
  by (simp add: path_Join2)

lemma path_Join2_is_clean: "x \<noteq> [] \<Longrightarrow> path_Clean (path_Join [x, y]) = path_Join [x, y]"
  by (simp add: path_Join_def path_Clean_idem)

lemma path_Clean_nonempty: "path_Clean p \<noteq> []"
proof -
  let ?r = "is_rooted p"
  let ?cs = "clean_comps ?r (split_slash p)"
  have n: "nf ?r ?cs" by (rule nf_clean_comps) (auto dest: split_slash_free)
  have "?cs \<noteq> [] \<Longrightarrow> join_slash ?cs \<noteq> []"
    using n join_slash_hd [of ?cs] by (cases ?cs) (auto simp: nf_def comp_ok_def)
  then show ?thesis by (cases "?cs = []") (auto simp: path_Clean_def unparse_def)
qed

lemma path_Join2_nonempty: "x \<noteq> [] \<Longrightarrow> path_Join [x, y] \<noteq> []"
  by (simp add: path_Join_def path_Clean_nonempty)

lemma valid_name_append_special:
  "valid_name n \<Longrightarrow> P @ n \<noteq> ''/'' \<and> P @ n \<noteq> ''.'' \<and> P @ n \<noteq> []"
  by (auto simp: valid_name_def append_eq_Cons_conv)

lemma dirprefix_valid: "valid_name n \<Longrightarrow> dirprefix (P @ n) = P @ n @ ''/''"
  using valid_name_append_special [of n P] by (simp add: dirprefix_def)

lemma under_valid:
  "valid_name n \<Longrightarrow> under (P @ n) q \<longleftrightarrow> q = P @ n \<or> strict_prefix (P @ n @ ''/'') q"
  using valid_name_append_special [of n P] by (simp add: under_def dirprefix_valid)

lemma takeWhile_name:
  "CHR ''/'' \<notin> set a \<Longrightarrow> r = [] \<or> hd r = CHR ''/'' \<Longrightarrow>
   takeWhile (\<lambda>c. c \<noteq> CHR ''/'') (a @ r) = a"
  by (cases r) (auto simp: takeWhile_tail takeWhile_eq_all_conv)

lemma under_valid_form:
  assumes "valid_name n" "under (P @ n) q"
  shows "\<exists>r. q = P @ n @ r \<and> (r = [] \<or> hd r = CHR ''/'')"
proof -
  from assms have "q = P @ n \<or> strict_prefix (P @ n @ ''/'') q" by (simp add: under_valid)
  then show ?thesis
  proof
    assume "q = P @ n" then show ?thesis by simp
  next
    assume "strict_prefix (P @ n @ ''/'') q"
    then obtain z where "q = (P @ n @ ''/'') @ z" by (auto simp: strict_prefix_def prefix_def)
    then have "q = P @ n @ (CHR ''/'' # z)" by simp
    then show ?thesis by (metis list.sel(1))
  qed
qed

lemma under_names_disjoint:
  assumes "valid_name a" "valid_name b" "under (P @ a) q" "under (P @ b) q"
  shows "a = b"
proof -
  from under_valid_form [OF assms(1,3)] obtain r1 where
    1: "q = P @ a @ r1" "r1 = [] \<or> hd r1 = CHR ''/''" by blast
  from under_valid_form [OF assms(2,4)] obtain r2 where
    2: "q = P @ b @ r2" "r2 = [] \<or> hd r2 = CHR ''/''" by blast
  from 1 2 have "a @ r1 = b @ r2" by simp
  then have "takeWhile (\<lambda>c. c \<noteq> CHR ''/'') (a @ r1) = takeWhile (\<lambda>c. c \<noteq> CHR ''/'') (b @ r2)"
    by simp
  then show ?thesis using assms(1,2) 1(2) 2(2) by (simp add: takeWhile_name valid_name_def)
qed

lemma digit_char: "k < 10 \<Longrightarrow> ''0123456789'' ! k \<in> set ''0123456789''"
  by (rule nth_mem) simp

lemma itoa_digits: "c \<in> set (itoa n) \<Longrightarrow> c \<in> set ''0123456789''"
proof (induction n arbitrary: c rule: itoa.induct)
  case step: (1 n)
  show ?case
  proof (cases "n < 10")
    case True
    with step.prems have "c = ''0123456789'' ! n" by (simp add: itoa.simps [of n])
    with True digit_char show ?thesis by blast
  next
    case False
    with step.prems have "c \<in> set (itoa (n div 10)) \<or> c = ''0123456789'' ! (n mod 10)"
      by (auto simp: itoa.simps [of n])
    moreover have "''0123456789'' ! (n mod 10) \<in> set ''0123456789''"
      by (rule digit_char) simp
    ultimately show ?thesis using step.IH [OF False] by blast
  qed
qed

lemma nextSuffix_slash_free: "CHR ''/'' \<notin> set (nextSuffix r)"
proof
  assume "CHR ''/'' \<in> set (nextSuffix r)"
  then have "CHR ''/'' \<in> set (itoa (10 ^ 9 + r mod 10 ^ 9))"
    unfolding nextSuffix_def by (metis list.sel(2) list.set_sel(2))
  from itoa_digits [OF this] show False by simp
qed

lemma valid_tmpname: "valid_name (''tmproot'' @ nextSuffix r)"
  using nextSuffix_slash_free [of r] by (simp add: valid_name_def)

section \<open>Facts about the calls of the outside world\<close>

lemmas fsop_defs = ioutil_TempDir_def copyDir_def chrootarchive_ApplyUncompressedLayer_def
  os_Rename_def os_RemoveAll_def idtools_MkdirAs_def idtools_MkdirAllAs_def emit_def fault_now_def

lemma under_refl [simp]: "under p p"
  by (simp add: under_def)

lemma below_under: "below p q \<Longrightarrow> under p q"
  by (simp add: below_def)

lemma under_not_below: "\<not> under p q \<Longrightarrow> \<not> below p q"
  by (simp add: below_def)

lemma TempDir_ok:
  "ioutil_TempDir D pfx s = ((tmp, None), s1) \<Longrightarrow>
   tmp = tempname s D pfx \<and> fs s tmp = None \<and> fs s1 = (fs s)(tmp \<mapsto> Dir) \<and>
   trace s1 = trace s @ [(CallTempDir D pfx, None)]"
  by (auto simp: ioutil_TempDir_def Let_def emit_def split: option.splits if_splits)

lemma TempDir_fail:
  "ioutil_TempDir D pfx s = ((tmp, Some e), s1) \<Longrightarrow>
   fs s1 = fs s \<and> (\<exists>res. trace s1 = trace s @ [(CallTempDir D pfx, Some res)]) \<and>
   e \<noteq> ErrApplyDiffFallback"
  by (auto simp: ioutil_TempDir_def Let_def emit_def split: option.splits if_splits)

lemma TempDir_result:
  "(\<exists>e s1. ioutil_TempDir D pfx s = (([], Some e), s1)) \<or>
   (\<exists>s1. ioutil_TempDir D pfx s = ((tempname s D pfx, None), s1))"
  by (simp add: ioutil_TempDir_def Let_def split: option.splits)

lemma copyDir_frame:
  "copyDir src dst fl s = (r, s1) \<Longrightarrow> \<not> below dst q \<Longrightarrow> fs s1 q = fs s q"
  by (auto simp: copyDir_def copied_def emit_def split: option.splits)

lemma copyDir_trace:
  "copyDir src dst fl s = (r, s1) \<Longrightarrow>
   \<exists>res. trace s1 = trace s @ [(CallCopyDir src dst, res)] \<and> (res = None \<longleftrightarrow> r = None) \<and>
         r \<noteq> Some ErrApplyDiffFallback"
  by (auto simp: copyDir_def emit_def split: option.splits)

lemma ApplyLayer_frame:
  "chrootarchive_ApplyUncompressedLayer dest layer opts s = (r, s1) \<Longrightarrow> \<not> below dest q \<Longrightarrow>
   fs s1 q = fs s q"
  by (auto simp: chrootarchive_ApplyUncompressedLayer_def Let_def emit_def split: option.splits)

lemma ApplyLayer_trace:
  "chrootarchive_ApplyUncompressedLayer dest layer opts s = ((n, r), s1) \<Longrightarrow>
   \<exists>res. trace s1 = trace s @ [(CallApplyLayer dest, res)] \<and> (res = None \<longleftrightarrow> r = None) \<and>
         r \<noteq> Some ErrApplyDiffFallback"
  by (auto simp: chrootarchive_ApplyUncompressedLayer_def Let_def emit_def split: option.splits)

lemma Rename_fail:
  "os_Rename a b s = (Some e, s1) \<Longrightarrow>
   fs s1 = fs s \<and> (\<exists>res. trace s1 = trace s @ [(CallRename a b, Some res)]) \<and>
   e \<noteq> ErrApplyDiffFallback"
  by (auto simp: os_Rename_def Let_def emit_def split: option.splits if_splits)




lemma Rename_nonempty:
  assumes "fault_now s = None" "fs s a = Some Dir" "fs s b = Some Dir" "a \<noteq> b"
    and "\<not> below a b" "below b q" "fs s q \<noteq> None"
  shows "os_Rename a b s =
           (Some (PathError ''rename'' a (if renameOverEmptyDir s then ENOTEMPTY else EEXIST)),
            emit (CallRename a b) (Some (if renameOverEmptyDir s then ENOTEMPTY else EEXIST)) s)"
  using assms by (auto simp: os_Rename_def Let_def)

lemma RemoveAll_frame:
  "os_RemoveAll p s = (r, s1) \<Longrightarrow> \<not> under p q \<Longrightarrow> fs s1 q = fs s q"
  by (auto simp: os_RemoveAll_def emit_def split: option.splits)


lemma RemoveAll_trace:
  "os_RemoveAll p s = (r, s1) \<Longrightarrow>
   \<exists>res. trace s1 = trace s @ [(CallRemoveAll p, res)] \<and> (res = None \<longleftrightarrow> r = None) \<and>
         (res = None \<longrightarrow> (\<forall>q. under p q \<longrightarrow> fs s1 q = None))"
  by (auto simp: os_RemoveAll_def emit_def split: option.splits)

lemma TempDir_advances: "advances s (snd (ioutil_TempDir D pfx s))"
  by (simp add: advances_def same_env_def ioutil_TempDir_def Let_def emit_def split: option.splits)

lemma copyDir_advances: "advances s (snd (copyDir src dst fl s))"
  by (simp add: advances_def same_env_def copyDir_def emit_def split: option.splits)

lemma ApplyLayer_advances: "advances s (snd (chrootarchive_ApplyUncompressedLayer dest l opts s))"
  by (simp add: advances_def same_env_def chrootarchive_ApplyUncompressedLayer_def Let_def emit_def
      split: option.splits)

section \<open>The paths of a layer\<close>

text \<open>
  With a home directory that is not the empty string, the directory of a layer is a
  clean path, and the names \<open>root\<close>, \<open>mnt\<close> and the temporary name are appended to
  it; the subtrees under them are disjoint.
\<close>

lemma dir_nonempty: "home d \<noteq> [] \<Longrightarrow> dir d i \<noteq> []"
  by (simp add: dir_def path_Join2_nonempty)

lemma dir_clean: "home d \<noteq> [] \<Longrightarrow> path_Clean (dir d i) = dir d i"
  by (simp add: dir_def path_Join2_is_clean)

lemma layer_path:
  "home d \<noteq> [] \<Longrightarrow> valid_name n \<Longrightarrow> path_Join [dir d i, n] = dirprefix (dir d i) @ n"
  by (simp add: path_Join2_clean dir_nonempty dir_clean)

lemma valid_root [simp]: "valid_name ''root''" and valid_mnt [simp]: "valid_name ''mnt''"
  by (simp_all add: valid_name_def)

lemma tempname_layer:
  "home d \<noteq> [] \<Longrightarrow>
   tempname s (dir d i) ''tmproot'' =
     dirprefix (dir d i) @ ''tmproot'' @ nextSuffix (rnd s (length (trace s)))"
  using layer_path [OF _ valid_tmpname, of d i] by (simp add: tempname_def dir_nonempty)

lemma root_tmp_disjoint:
  assumes "home d \<noteq> []"
  shows "under (path_Join [dir d i, ''root'']) q \<Longrightarrow> \<not> under (tempname s (dir d i) ''tmproot'') q"
proof
  assume a: "under (path_Join [dir d i, ''root'']) q" "under (tempname s (dir d i) ''tmproot'') q"
  have "''root'' = ''tmproot'' @ nextSuffix (rnd s (length (trace s)))"
    using a unfolding layer_path [OF assms valid_root] tempname_layer [OF assms]
    by (intro under_names_disjoint [OF valid_root valid_tmpname]) simp_all
  then show False by simp
qed


lemma mnt_tmp_disjoint:
  assumes "home d \<noteq> []"
  shows "under (path_Join [dir d i, ''mnt'']) q \<Longrightarrow> \<not> under (tempname s (dir d i) ''tmproot'') q"
proof
  assume a: "under (path_Join [dir d i, ''mnt'']) q" "under (tempname s (dir d i) ''tmproot'') q"
  have "''mnt'' = ''tmproot'' @ nextSuffix (rnd s (length (trace s)))"
    using a unfolding layer_path [OF assms valid_mnt] tempname_layer [OF assms]
    by (intro under_names_disjoint [OF valid_mnt valid_tmpname]) simp_all
  then show False by simp
qed

section \<open>Facts about \<^verbatim>\<open>ApplyDiff\<close>\<close>

lemma ApplyDiff_rest_fail:
  assumes "ApplyDiff_rest d D pr tmp diff s1 = ((sz, Some e), s2)"
  shows "sz = 0 \<and> e \<noteq> ErrApplyDiffFallback \<and> (\<forall>q. \<not> under tmp q \<longrightarrow> fs s2 q = fs s1 q)"
proof -
  obtain r1 sA where c: "copyDir pr tmp copyHardlink s1 = (r1, sA)" by (cases "copyDir pr tmp copyHardlink s1")
  show ?thesis
  proof (cases r1)
    case (Some e1)
    with assms c have "sz = 0" "e = e1" "s2 = sA" by (simp_all add: ApplyDiff_rest_def)
    with copyDir_frame [OF c] copyDir_trace [OF c] Some show ?thesis
      by (auto dest: under_not_below)
  next
    case None
    obtain n r2 sB where a: "chrootarchive_ApplyUncompressedLayer tmp diff (uidMaps d, gidMaps d) sA = ((n, r2), sB)"
      by (cases "chrootarchive_ApplyUncompressedLayer tmp diff (uidMaps d, gidMaps d) sA") auto
    have fB: "\<forall>q. \<not> under tmp q \<longrightarrow> fs sB q = fs s1 q"
      using copyDir_frame [OF c] ApplyLayer_frame [OF a] by (auto dest: under_not_below)
    show ?thesis
    proof (cases r2)
      case (Some e2)
      with assms c a None have "sz = 0" "e = e2" "s2 = sB" by (simp_all add: ApplyDiff_rest_def)
      with fB ApplyLayer_trace [OF a] Some show ?thesis by auto
    next
      case n2: None
      obtain r3 sC where r: "os_Rename tmp (path_Join [D, ''root'']) sB = (r3, sC)"
        by (cases "os_Rename tmp (path_Join [D, ''root'']) sB")
      with assms c a None n2 obtain e3 where "r3 = Some e3" "sz = 0" "e = e3" "s2 = sC"
        by (cases r3) (simp_all add: ApplyDiff_rest_def Let_def)
      with Rename_fail [of tmp "path_Join [D, ''root'']" sB e3 sC] r fB show ?thesis by auto
    qed
  qed
qed



lemma ApplyDiff_checked:
  "parent \<noteq> [] \<Longrightarrow> fs s (path_Join [dir d parent, ''root'']) \<noteq> None \<Longrightarrow>
   ApplyDiff d ident parent diff s =
     (case ioutil_TempDir (dir d ident) ''tmproot'' s of
        ((tmpRootDir, Some err), s1) \<Rightarrow> ((0, Some err), s1)
      | ((tmpRootDir, None), s1) \<Rightarrow>
      case ApplyDiff_rest d (dir d ident) (path_Join [dir d parent, ''root'']) tmpRootDir diff s1 of
        ((size', Some err), s2) \<Rightarrow> ((size', Some err), snd (os_RemoveAll tmpRootDir s2))
      | ((size', None), s2) \<Rightarrow>
          ((size', None), snd (os_RemoveAll (path_Join [dir d ident, ''mnt'']) s2)))"
  by (auto simp: ApplyDiff_def Let_def os_Stat_def)


lemma staged_env:
  "same_env s (staged d ident parent s) \<and>
   length (trace (staged d ident parent s)) = length (trace s) + 2"
  using TempDir_advances [of s "dir d ident" "''tmproot''"]
    copyDir_advances [of "snd (ioutil_TempDir (dir d ident) ''tmproot'' s)"
      "path_Join [dir d parent, ''root'']" "tempname s (dir d ident) ''tmproot''" copyHardlink]
  by (simp add: staged_def advances_def same_env_def)


lemma extraction_size:
  "snd (fst (extraction d ident parent diff s)) = None \<Longrightarrow>
   fst (fst (extraction d ident parent diff s)) = nbytes s (length (trace s) + 2)"
  using staged_env [of s d ident parent]
  by (simp add: extraction_def chrootarchive_ApplyUncompressedLayer_def Let_def emit_def same_env_def
      fault_now_def split: option.splits)


lemma RemoveAll_advances: "advances s (snd (os_RemoveAll p s))"
  by (simp add: advances_def same_env_def os_RemoveAll_def emit_def split: option.splits)

lemma ApplyDiff_run_extracted:
  assumes h: "home d \<noteq> []" and p: "parent \<noteq> []" "fs s (path_Join [dir d parent, ''root'']) \<noteq> None"
    and D: "fs s (dir d ident) \<noteq> None"
    and free: "fs s (tempname s (dir d ident) ''tmproot'') = None"
    and f0: "fault s (length (trace s)) = None" and f1: "fault s (Suc (length (trace s))) = None"
    and f2: "fault s (Suc (Suc (length (trace s)))) = None"
  shows "\<exists>sB. ApplyDiff d ident parent diff s =
                (case os_Rename (tempname s (dir d ident) ''tmproot'') (path_Join [dir d ident, ''root'']) sB of
                   (Some err, s3) \<Rightarrow>
                     ((0, Some err), snd (os_RemoveAll (tempname s (dir d ident) ''tmproot'') s3))
                 | (None, s3) \<Rightarrow>
                     ((nbytes s (Suc (Suc (length (trace s)))), None),
                      snd (os_RemoveAll (path_Join [dir d ident, ''mnt'']) s3))) \<and>
              same_env s sB \<and> length (trace sB) = length (trace s) + 3 \<and>
              (\<forall>q. \<not> below (tempname s (dir d ident) ''tmproot'') q \<longrightarrow>
                   fs sB q = ((fs s)(tempname s (dir d ident) ''tmproot'' \<mapsto> Dir)) q)"
proof -
  let ?D = "dir d ident"
  let ?tmp = "tempname s ?D ''tmproot''"
  let ?pr = "path_Join [dir d parent, ''root'']"
  let ?root = "path_Join [?D, ''root'']"
  let ?n = "length (trace s)"
  define s1 where "s1 = snd (ioutil_TempDir ?D ''tmproot'' s)"
  define sA where "sA = snd (copyDir ?pr ?tmp copyHardlink s1)"
  define sB where "sB = snd (chrootarchive_ApplyUncompressedLayer ?tmp diff (uidMaps d, gidMaps d) sA)"
  have a1: "advances s s1" unfolding s1_def by (rule TempDir_advances)
  have aA: "advances s1 sA" unfolding sA_def by (rule copyDir_advances)
  have aB: "advances sA sB" unfolding sB_def by (rule ApplyLayer_advances)
  have ok: "ioutil_TempDir ?D ''tmproot'' s = ((?tmp, None), s1)"
    unfolding s1_def using dir_nonempty [OF h, of ident] D free f0
    by (simp add: ioutil_TempDir_def Let_def fault_now_def)
  have "fst (copyDir ?pr ?tmp copyHardlink s1) = None"
    using a1 f1 by (simp add: copyDir_def fault_now_def advances_def same_env_def)
  then have c: "copyDir ?pr ?tmp copyHardlink s1 = (None, sA)"
    unfolding sA_def by (metis prod.collapse)
  have "fst (chrootarchive_ApplyUncompressedLayer ?tmp diff (uidMaps d, gidMaps d) sA) =
          (nbytes s (Suc (Suc ?n)), None)"
    using a1 aA f2
    by (simp add: chrootarchive_ApplyUncompressedLayer_def Let_def fault_now_def advances_def
        same_env_def)
  then have a: "chrootarchive_ApplyUncompressedLayer ?tmp diff (uidMaps d, gidMaps d) sA =
          ((nbytes s (Suc (Suc ?n)), None), sB)"
    unfolding sB_def by (metis prod.collapse)
  have fB: "\<forall>q. \<not> below ?tmp q \<longrightarrow> fs sB q = ((fs s)(?tmp \<mapsto> Dir)) q"
    using TempDir_ok [OF ok] copyDir_frame [OF c] ApplyLayer_frame [OF a] by simp
  have run: "ApplyDiff d ident parent diff s =
                (case os_Rename ?tmp ?root sB of
                   (Some err, s3) \<Rightarrow> ((0, Some err), snd (os_RemoveAll ?tmp s3))
                 | (None, s3) \<Rightarrow>
                     ((nbytes s (Suc (Suc ?n)), None), snd (os_RemoveAll (path_Join [?D, ''mnt'']) s3)))"
    using ok c a
    by (simp add: ApplyDiff_checked [OF p] ApplyDiff_rest_def Let_def split: prod.splits option.splits)
  have env: "same_env s sB" "length (trace sB) = length (trace s) + 3"
    using a1 aA aB by (simp_all add: advances_def same_env_def)
  from run env fB show ?thesis by blast
qed


text \<open>
  A \<open>root\<close> that holds an entry is not replaced: the rename fails, and so does
  \<^verbatim>\<open>ApplyDiff\<close>.
\<close>

lemma ApplyDiff_run_full_root:
  assumes h: "home d \<noteq> []" and p: "parent \<noteq> []" "fs s (path_Join [dir d parent, ''root'']) \<noteq> None"
    and D: "fs s (dir d ident) \<noteq> None"
    and free: "fs s (tempname s (dir d ident) ''tmproot'') = None"
    and full: "fs s (path_Join [dir d ident, ''root'']) = Some Dir"
      "below (path_Join [dir d ident, ''root'']) q" "fs s q \<noteq> None"
    and f0: "fault s (length (trace s)) = None" and f1: "fault s (Suc (length (trace s))) = None"
    and f2: "fault s (Suc (Suc (length (trace s)))) = None"
    and f3: "fault s (Suc (Suc (Suc (length (trace s))))) = None"
  shows "fst (ApplyDiff d ident parent diff s) =
           (0, Some (PathError ''rename'' (tempname s (dir d ident) ''tmproot'')
                       (if renameOverEmptyDir s then ENOTEMPTY else EEXIST)))"
proof -
  let ?D = "dir d ident"
  let ?tmp = "tempname s ?D ''tmproot''"
  let ?root = "path_Join [?D, ''root'']"
  from ApplyDiff_run_extracted [OF h p D free f0 f1 f2, of diff] obtain sB where
    run: "ApplyDiff d ident parent diff s =
                (case os_Rename ?tmp ?root sB of
                   (Some err, s3) \<Rightarrow> ((0, Some err), snd (os_RemoveAll ?tmp s3))
                 | (None, s3) \<Rightarrow>
                     ((nbytes s (Suc (Suc (length (trace s)))), None),
                      snd (os_RemoveAll (path_Join [?D, ''mnt'']) s3)))"
    and envB: "same_env s sB" "length (trace sB) = length (trace s) + 3"
    and fB: "\<And>q. \<not> below ?tmp q \<Longrightarrow> fs sB q = ((fs s)(?tmp \<mapsto> Dir)) q"
    by blast
  have nr: "\<not> under ?tmp ?root"
    using root_tmp_disjoint [OF h, of ident ?root s] by simp
  then have ne: "?tmp \<noteq> ?root" by auto
  have nq: "\<not> under ?tmp q"
    using root_tmp_disjoint [OF h, of ident q s] full(2) by (simp add: below_def)
  then have qt: "q \<noteq> ?tmp" by auto
  have src: "fs sB ?tmp = Some Dir" using fB [of ?tmp] by (simp add: below_def)
  have dst: "fs sB ?root = Some Dir"
    using fB [of ?root] nr ne full(1) by (simp add: under_not_below)
  have ent: "fs sB q \<noteq> None"
    using fB [of q] nq qt full(3) by (simp add: under_not_below)
  have fn: "fault_now sB = None"
    using envB f3 by (simp add: fault_now_def same_env_def numeral_3_eq_3)
  have fl: "renameOverEmptyDir sB = renameOverEmptyDir s"
    using envB by (simp add: same_env_def)
  show ?thesis
    unfolding run Rename_nonempty [OF fn src dst ne under_not_below [OF nr] full(2) ent] fl
    by simp
qed





lemma ApplyDiff_run_extract_fails:
  assumes "parent \<noteq> []" "fs s (path_Join [dir d parent, ''root'']) \<noteq> None"
    and "dir d ident \<noteq> []" "fs s (dir d ident) \<noteq> None"
    and "fs s (tempname s (dir d ident) ''tmproot'') = None"
    and "fault s (length (trace s)) = None" "fault s (Suc (length (trace s))) = None"
    and "fault s (Suc (Suc (length (trace s)))) = Some e"
  shows "fst (ApplyDiff d ident parent diff s) = (0, Some (ExternalError ''ApplyUncompressedLayer'' e))"
    and "last (trace (snd (ApplyDiff d ident parent diff s))) =
           (CallRemoveAll (tempname s (dir d ident) ''tmproot''),
            fault s (Suc (Suc (Suc (length (trace s))))))"
    and "fault s (Suc (Suc (Suc (length (trace s))))) \<noteq> None \<Longrightarrow>
         \<not> partial s (Suc (Suc (Suc (length (trace s))))) q \<Longrightarrow>
         below (tempname s (dir d ident) ''tmproot'') q \<Longrightarrow>
         fs (snd (ApplyDiff d ident parent diff s)) q = extracted s (Suc (Suc (length (trace s)))) q"
  using assms
  by (auto simp: ApplyDiff_checked ApplyDiff_rest_def Let_def fsop_defs split: option.splits)

text \<open>The small world.\<close>

lemma nextSuffix_7: "nextSuffix 7 = ''000000007''"
  by (simp add: nextSuffix_def itoa.simps)

lemma ex_dirs:
  "home ex_driver \<noteq> []"
  "dir ex_driver ''a'' = ''/h/a''" "dir ex_driver ''p'' = ''/h/p''"
  "path_Join [''/h/a'', ''root''] = ''/h/a/root''" "path_Join [''/h/a'', ''mnt''] = ''/h/a/mnt''"
  "path_Join [''/h/p'', ''root''] = ''/h/p/root''"
  by (simp_all add: dir_def ex_defs path_defs)

lemma ex_stuck_fields:
  "fs ex_sys_stuck = ex_fs" "trace ex_sys_stuck = []"
  "fault ex_sys_stuck = (\<lambda>n. if n = 2 then Some (Errno 5) else if n = 3 then Some EBUSY else None)"
  "extracted ex_sys_stuck = ex_extracted" "partial ex_sys_stuck = (\<lambda>n q. False)"
  "tempname ex_sys_stuck ''/h/a'' ''tmproot'' = ''/h/a/tmproot000000007''"
  by (simp_all add: tempname_def ex_sys_stuck_def ex_sys_def nextSuffix_7 path_defs)


lemma ex_broken_fields:
  "fs ex_sys_broken = ex_fs" "trace ex_sys_broken = []"
  "fault ex_sys_broken = (\<lambda>n. if n = 2 then Some (Errno 5) else None)"
  "extracted ex_sys_broken = ex_extracted"
  "tempname ex_sys_broken ''/h/a'' ''tmproot'' = ''/h/a/tmproot000000007''"
  by (simp_all add: tempname_def ex_sys_broken_def ex_sys_def nextSuffix_7 path_defs)


text \<open>
  In the small world the layer \<open>a\<close> has a \<open>root\<close> with a file in it, as every
  layer that \<^verbatim>\<open>Create\<close> has made from a parent with files: there \<^verbatim>\<open>ApplyDiff\<close> fails
  at the rename, whatever the Go release, and the \<open>root\<close> keeps its file.
\<close>

lemma ApplyDiff_full_root_example:
  "fst (ApplyDiff ex_driver ''a'' ''p'' ''tar'' ex_sys) =
     (0, Some (PathError ''rename'' ''/h/a/tmproot000000007'' EEXIST))"
  "fst (ApplyDiff ex_driver ''a'' ''p'' ''tar'' (ex_sys\<lparr>renameOverEmptyDir := True\<rparr>)) =
     (0, Some (PathError ''rename'' ''/h/a/tmproot000000007'' ENOTEMPTY))"
proof -
  have b: "below ''/h/a/root'' ''/h/a/root/f''"
    by (simp add: below_def under_def dirprefix_def)
  have t: "tempname ex_sys ''/h/a'' ''tmproot'' = ''/h/a/tmproot000000007''"
    "tempname (ex_sys\<lparr>renameOverEmptyDir := True\<rparr>) ''/h/a'' ''tmproot'' = ''/h/a/tmproot000000007''"
    by (simp_all add: tempname_def ex_sys_def nextSuffix_7 path_defs)
  show "fst (ApplyDiff ex_driver ''a'' ''p'' ''tar'' ex_sys) =
     (0, Some (PathError ''rename'' ''/h/a/tmproot000000007'' EEXIST))"
    using ApplyDiff_run_full_root [where d = ex_driver and parent = "''p''" and s = ex_sys
        and ident = "''a''" and q = "''/h/a/root/f''" and diff = "''tar''"] b t
    by (simp add: ex_dirs ex_sys_def ex_fs_def)
  show "fst (ApplyDiff ex_driver ''a'' ''p'' ''tar'' (ex_sys\<lparr>renameOverEmptyDir := True\<rparr>)) =
     (0, Some (PathError ''rename'' ''/h/a/tmproot000000007'' ENOTEMPTY))"
    using ApplyDiff_run_full_root [where d = ex_driver and parent = "''p''"
        and s = "ex_sys\<lparr>renameOverEmptyDir := True\<rparr>"
        and ident = "''a''" and q = "''/h/a/root/f''" and diff = "''tar''"] b t
    by (simp add: ex_dirs ex_sys_def ex_fs_def)
qed

section \<open>Facts about \<^verbatim>\<open>Create\<close> and \<^verbatim>\<open>Remove\<close>\<close>

lemma MkdirAs_ok:
  "idtools_MkdirAs p s = (None, s1) \<Longrightarrow>
   fs s1 = (\<lambda>q. if q = p \<and> fs s q = None then Some Dir else fs s q) \<and>
   trace s1 = trace s @ [(CallMkdirAs p, None)]"
  by (auto simp: idtools_MkdirAs_def emit_def split: option.splits)

lemma MkdirAs_fail:
  "idtools_MkdirAs p s = (Some e, s1) \<Longrightarrow>
   fs s1 = fs s \<and> (\<exists>res. trace s1 = trace s @ [(CallMkdirAs p, Some res)])"
  by (auto simp: idtools_MkdirAs_def emit_def split: option.splits)

lemma MkdirAllAs_ok:
  "idtools_MkdirAllAs p s = (None, s1) \<Longrightarrow>
   fs s1 = (\<lambda>q. if under q p \<and> fs s q = None then Some Dir else fs s q) \<and>
   trace s1 = trace s @ [(CallMkdirAllAs p, None)]"
  by (auto simp: idtools_MkdirAllAs_def emit_def split: option.splits)

lemma MkdirAs_advances: "advances s (snd (idtools_MkdirAs p s))"
  by (simp add: advances_def same_env_def idtools_MkdirAs_def emit_def split: option.splits)

lemma MkdirAllAs_advances: "advances s (snd (idtools_MkdirAllAs p s))"
  by (simp add: advances_def same_env_def idtools_MkdirAllAs_def emit_def split: option.splits)

text \<open>Create after its three preparing steps.\<close>

lemma Create_prepared:
  assumes "rootIDs s (uidMaps d) (gidMaps d) = Inr ids"
    and "idtools_MkdirAllAs (path_Dir (dir d ident)) s = (None, s1)"
    and "idtools_MkdirAs (dir d ident) s1 = (None, s2)"
  shows "Create d ident parent mountLabel s =
     (case Create_rest d (dir d ident) parent s2 of
        (Some retErr, s3) \<Rightarrow> (Some retErr, snd (os_RemoveAll (dir d ident) s3))
      | (None, s3) \<Rightarrow> (None, s3))"
  using assms by (simp add: Create_def Let_def)

lemma Create_cleanup:
  assumes "rootIDs s (uidMaps d) (gidMaps d) = Inr ids"
    and "idtools_MkdirAllAs (path_Dir (dir d ident)) s = (None, s1)"
    and "idtools_MkdirAs (dir d ident) s1 = (None, s2)"
    and "Create d ident parent mountLabel s = (Some e, s')"
  shows "\<exists>res. last (trace s') = (CallRemoveAll (dir d ident), res) \<and>
               (res = None \<longrightarrow> (\<forall>q. under (dir d ident) q \<longrightarrow> fs s' q = None))"
proof -
  obtain r3 s3 where rest: "Create_rest d (dir d ident) parent s2 = (r3, s3)"
    by (cases "Create_rest d (dir d ident) parent s2")
  obtain r4 s4 where rm: "os_RemoveAll (dir d ident) s3 = (r4, s4)"
    by (cases "os_RemoveAll (dir d ident) s3")
  from assms(4) rest rm have "s' = s4"
    unfolding Create_prepared [OF assms(1-3)] by (cases r3) simp_all
  with RemoveAll_trace [OF rm] show ?thesis by auto
qed

lemma Create_rest_notfound:
  assumes "parent \<noteq> []"
    and "fs s2 (dir d parent) = None \<or> fs s2 (path_Join [dir d parent, ''root'']) = None"
  shows "Create_rest d D parent s2 =
           (Some (PathError ''lstat''
              (if fs s2 (dir d parent) = None then dir d parent
               else path_Join [dir d parent, ''root'']) ENOENT), s2)"
  using assms by (auto simp: Create_rest_def Let_def os_Lstat_def)

text \<open>More about paths: the directory of a layer with a valid name.\<close>

lemma path_Clean_trailing_slash: "x \<noteq> [] \<Longrightarrow> path_Clean (x @ ''/'') = path_Clean x"
proof -
  assume x: "x \<noteq> []"
  have r: "is_rooted (x @ ''/'') = is_rooted x" using x by (simp add: is_rooted_def)
  have "split_slash (x @ ''/'') = split_slash x @ [[]]"
    using split_slash_append [of x "[]"] by simp
  then have "clean_comps (is_rooted x) (split_slash (x @ ''/'')) = clean_comps (is_rooted x) (split_slash x)"
    by (simp add: clean_comps_snoc clean_step_def)
  then show ?thesis by (simp only: path_Clean_def r)
qed

lemma path_Clean_dirprefix: "path_Clean H = H \<Longrightarrow> path_Clean (dirprefix H) = H"
proof -
  assume c: "path_Clean H = H"
  show ?thesis
  proof (cases "H = ''/'' \<or> H = ''.''")
    case True
    then show ?thesis
      by (auto simp: dirprefix_def path_defs)
  next
    case False
    then have "H \<noteq> []" using c path_Clean_nonempty [of H] by auto
    with False c show ?thesis by (simp add: dirprefix_def path_Clean_trailing_slash)
  qed
qed

lemma dirprefix_last: "dirprefix H \<noteq> [] \<Longrightarrow> last (dirprefix H) = CHR ''/''"
  by (auto simp: dirprefix_def split: if_splits)

lemma path_Dir_name:
  assumes "CHR ''/'' \<notin> set n" "P = [] \<or> last P = CHR ''/''"
  shows "path_Dir (P @ n) = path_Clean P"
proof -
  have "dropWhile (\<lambda>c. c \<noteq> CHR ''/'') (rev n @ rev P) = dropWhile (\<lambda>c. c \<noteq> CHR ''/'') (rev P)"
    using assms(1) by (simp add: dropWhile_append)
  also have "\<dots> = rev P"
    using assms(2) by (cases "rev P") (auto simp: last_rev [symmetric] simp del: last_rev)
  finally show ?thesis by (simp add: path_Dir_def)
qed

lemma dir_valid:
  assumes "home d \<noteq> []" "valid_name i"
  shows "dir d i = dirprefix (path_Clean (home d)) @ i"
  using assms by (simp add: dir_def path_Join2)

lemma path_Dir_layer:
  assumes "home d \<noteq> []" "valid_name i"
  shows "path_Dir (dir d i) = path_Clean (home d)"
proof -
  let ?H = "path_Clean (home d)"
  have "path_Dir (dirprefix ?H @ i) = path_Clean (dirprefix ?H)"
    using assms(2) dirprefix_last [of ?H] by (intro path_Dir_name) (auto simp: valid_name_def)
  also have "\<dots> = ?H" by (rule path_Clean_dirprefix) (rule path_Clean_idem)
  finally show ?thesis using assms by (simp add: dir_valid)
qed

lemma under_length: "under p q \<Longrightarrow> p \<noteq> ''.'' \<Longrightarrow> q = p \<or> length p < length q"
  by (auto simp: under_def dirprefix_def strict_prefix_def prefix_def split: if_splits)

lemma dirprefix_length: "length H \<le> Suc (length (dirprefix H))"
  by (simp add: dirprefix_def)

lemma dirprefix_name_neq: "valid_name n \<Longrightarrow> dirprefix H @ n @ r \<noteq> H"
  by (auto simp: dirprefix_def valid_name_def append_eq_Cons_conv split: if_splits)

text \<open>A name under the directory of a layer is no ancestor of the home directory.\<close>

lemma layer_not_above_home:
  assumes "valid_name n"
  shows "\<not> under (dirprefix H @ n @ r) H"
proof
  assume u: "under (dirprefix H @ n @ r) H"
  have "dirprefix H @ n @ r \<noteq> ''.''"
    using assms by (auto simp: dirprefix_def valid_name_def append_eq_Cons_conv split: if_splits)
  from under_length [OF u this] dirprefix_name_neq [OF assms, of H r]
  have "length (dirprefix H @ n @ r) < length H" by auto
  moreover have "0 < length n" using assms by (simp add: valid_name_def)
  ultimately show False using dirprefix_length [of H] by simp
qed

text \<open>What the two preparing steps of Create leave alone.\<close>

lemma Create_prep_frame:
  assumes "idtools_MkdirAllAs (path_Dir D) s = (None, s1)"
    and "idtools_MkdirAs D s1 = (None, s2)"
    and "q \<noteq> D" "\<not> under q (path_Dir D)"
  shows "fs s2 q = fs s q"
  using MkdirAllAs_ok [OF assms(1)] MkdirAs_ok [OF assms(2)] assms(3,4) by simp

lemma Create_prep_grows:
  assumes "idtools_MkdirAllAs (path_Dir D) s = (None, s1)"
    and "idtools_MkdirAs D s1 = (None, s2)"
    and "fs s q \<noteq> None"
  shows "fs s2 q = fs s q"
  using MkdirAllAs_ok [OF assms(1)] MkdirAs_ok [OF assms(2)] assms(3) by auto

lemma layer_sub_form:
  assumes "home d \<noteq> []" "valid_name i" "valid_name n"
  shows "path_Join [dir d i, n] = dirprefix (path_Clean (home d)) @ i @ ''/'' @ n"
proof -
  have "path_Join [dir d i, n] = dirprefix (dir d i) @ n"
    using assms(1,3) by (simp add: layer_path)
  also have "\<dots> = dirprefix (dirprefix (path_Clean (home d)) @ i) @ n"
    using assms by (simp add: dir_valid)
  also have "\<dots> = dirprefix (path_Clean (home d)) @ i @ ''/'' @ n"
    using assms(2) by (simp add: dirprefix_valid)
  finally show ?thesis .
qed

lemma parent_root_form:
  assumes "home d \<noteq> []" "valid_name parent"
  shows "path_Join [dir d parent, ''root''] = dirprefix (path_Clean (home d)) @ parent @ ''/root''"
  using layer_sub_form [OF assms valid_root] by simp

lemma parent_root_untouched:
  assumes "home d \<noteq> []" "valid_name ident" "valid_name parent"
    and "idtools_MkdirAllAs (path_Dir (dir d ident)) s = (None, s1)"
    and "idtools_MkdirAs (dir d ident) s1 = (None, s2)"
  shows "fs s2 (path_Join [dir d parent, ''root'']) = fs s (path_Join [dir d parent, ''root''])"
proof (rule Create_prep_frame [OF assms(4,5)])
  let ?H = "path_Clean (home d)"
  show "path_Join [dir d parent, ''root''] \<noteq> dir d ident"
  proof
    assume "path_Join [dir d parent, ''root''] = dir d ident"
    then have "parent @ ''/root'' = ident"
      unfolding parent_root_form [OF assms(1,3)] dir_valid [OF assms(1,2)] by simp
    then have "CHR ''/'' \<in> set ident" by auto
    with assms(2) show False by (simp add: valid_name_def)
  qed
  show "\<not> under (path_Join [dir d parent, ''root'']) (path_Dir (dir d ident))"
    unfolding parent_root_form [OF assms(1,3)] path_Dir_layer [OF assms(1,2)]
    by (rule layer_not_above_home [OF assms(3)])
qed

lemma parent_dir_untouched:
  assumes "home d \<noteq> []" "valid_name ident" "valid_name parent" "parent \<noteq> ident"
    and "idtools_MkdirAllAs (path_Dir (dir d ident)) s = (None, s1)"
    and "idtools_MkdirAs (dir d ident) s1 = (None, s2)"
  shows "fs s2 (dir d parent) = fs s (dir d parent)"
proof (rule Create_prep_frame [OF assms(5,6)])
  let ?H = "path_Clean (home d)"
  show "dir d parent \<noteq> dir d ident"
    using assms(1-4) by (simp add: dir_valid)
  show "\<not> under (dir d parent) (path_Dir (dir d ident))"
    unfolding path_Dir_layer [OF assms(1,2)] dir_valid [OF assms(1,3)]
    using layer_not_above_home [OF assms(3), of ?H "[]"] by simp
qed

text \<open>A successful Create, step by step.\<close>

lemma Create_ok:
  assumes "Create d ident parent mountLabel s = (None, s')"
  shows "\<exists>s1 s2. idtools_MkdirAllAs (path_Dir (dir d ident)) s = (None, s1) \<and>
                 idtools_MkdirAs (dir d ident) s1 = (None, s2) \<and>
                 Create_rest d (dir d ident) parent s2 = (None, s')"
  using assms
  by (auto simp: Create_def Let_def split: sum.splits prod.splits option.splits)

lemma Create_rest_ok:
  assumes "parent \<noteq> []" "Create_rest d D parent s2 = (None, s3)"
  shows "\<exists>sR sM. idtools_MkdirAs (path_Join [D, ''root'']) s2 = (None, sR) \<and>
                 idtools_MkdirAs (path_Join [D, ''mnt'']) sR = (None, sM) \<and>
                 copyDir (path_Join [dir d parent, ''root'']) (path_Join [D, ''root''])
                   copyHardlink sM = (None, s3)"
  using assms
  by (auto simp: Create_rest_def Let_def split: prod.splits option.splits)

lemma copyDir_ok:
  "copyDir src dst fl s = (None, s1) \<Longrightarrow> fs s1 = copied fl src dst (\<lambda>q. True) s"
  by (auto simp: copyDir_def emit_def split: option.splits)

lemma below_valid_form:
  assumes "valid_name n" "below (P @ n) q"
  shows "\<exists>z. q = P @ n @ CHR ''/'' # z \<and> z \<noteq> []"
proof -
  from assms have "strict_prefix (P @ n @ ''/'') q"
    by (auto simp: below_def under_valid)
  then obtain z where "q = (P @ n @ ''/'') @ z" "z \<noteq> []"
    by (auto simp: strict_prefix_def prefix_def)
  then show ?thesis by auto
qed

lemma under_valid_intro:
  "valid_name n \<Longrightarrow> z \<noteq> [] \<Longrightarrow> under (P @ n) (P @ n @ CHR ''/'' # z)"
  by (simp add: under_valid strict_prefix_def)

lemma rebase_valid:
  assumes "valid_name n" "valid_name m"
  shows "rebase (P @ n) (Q @ m) (Q @ m @ CHR ''/'' # z) = P @ n @ CHR ''/'' # z"
  using valid_name_append_special [OF assms(2), of Q]
  by (simp add: rebase_def dirprefix_valid [OF assms(1)] dirprefix_valid [OF assms(2)])

text \<open>
  The entries of a freshly created child: what the two layers look like, with
  \<open>PH\<close> the prefix of the names in the home directory.
\<close>

lemma Create_child_fs:
  assumes h: "home d \<noteq> []" and vc: "valid_name child" and vp: "valid_name parent"
    and ne: "child \<noteq> parent"
    and cr: "Create d child parent mountLabel s = (None, s')"
    and b: "below (path_Join [dir d child, ''root'']) q"
  shows "fs s' q =
           (case fs s (rebase (path_Join [dir d parent, ''root'']) (path_Join [dir d child, ''root'']) q) of
              Some x \<Rightarrow> Some (copy_node copyHardlink x)
            | None \<Rightarrow> fs s q)"
proof -
  let ?H = "path_Clean (home d)"
  let ?PH = "dirprefix ?H"
  let ?cr = "path_Join [dir d child, ''root'']"
  let ?cm = "path_Join [dir d child, ''mnt'']"
  let ?pr = "path_Join [dir d parent, ''root'']"
  have pne: "parent \<noteq> []" using vp by (simp add: valid_name_def)
  from Create_ok [OF cr] obtain s1 s2 where
    p1: "idtools_MkdirAllAs (path_Dir (dir d child)) s = (None, s1)" and
    p2: "idtools_MkdirAs (dir d child) s1 = (None, s2)" and
    rest: "Create_rest d (dir d child) parent s2 = (None, s')" by blast
  from Create_rest_ok [OF pne rest] obtain sR sM where
    m1: "idtools_MkdirAs ?cr s2 = (None, sR)" and
    m2: "idtools_MkdirAs ?cm sR = (None, sM)" and
    cp: "copyDir ?pr ?cr copyHardlink sM = (None, s')" by blast
  have Dc: "dir d child = ?PH @ child" and Dp: "dir d parent = ?PH @ parent"
    using h vc vp by (simp_all add: dir_valid)
  have cr_form: "?cr = (?PH @ child @ ''/'') @ ''root''" and cm_form: "?cm = (?PH @ child @ ''/'') @ ''mnt''"
    and pr_form: "?pr = (?PH @ parent @ ''/'') @ ''root''"
    using layer_sub_form [OF h vc valid_root] layer_sub_form [OF h vc valid_mnt]
      layer_sub_form [OF h vp valid_root] by simp_all
  from b obtain z where q: "q = (?PH @ child @ ''/'') @ ''root'' @ CHR ''/'' # z"
    unfolding cr_form using below_valid_form [OF valid_root] by blast
  have rb: "rebase ?pr ?cr q = (?PH @ parent @ ''/'') @ ''root'' @ CHR ''/'' # z"
    unfolding cr_form pr_form q by (rule rebase_valid) simp_all
  let ?x = "rebase ?pr ?cr q"
  have frame: "\<And>y. y \<noteq> dir d child \<Longrightarrow> \<not> under y (path_Dir (dir d child)) \<Longrightarrow>
                  y \<noteq> ?cr \<Longrightarrow> y \<noteq> ?cm \<Longrightarrow> fs sM y = fs s y"
    using Create_prep_frame [OF p1 p2] MkdirAs_ok [OF m1] MkdirAs_ok [OF m2] by simp
  have xs: "fs sM ?x = fs s ?x"
  proof (rule frame)
    have up: "under (?PH @ parent) ?x"
      unfolding rb using under_valid_intro [OF vp, of "''root/'' @ z" ?PH] by simp
    have uc1: "under (?PH @ child) (dir d child)" unfolding Dc by simp
    have uc2: "under (?PH @ child) ?cr"
      unfolding cr_form using under_valid_intro [OF vc, of "''root''" ?PH] by simp
    have uc3: "under (?PH @ child) ?cm"
      unfolding cm_form using under_valid_intro [OF vc, of "''mnt''" ?PH] by simp
    note uc = uc1 uc2 uc3
    show "?x \<noteq> dir d child" "?x \<noteq> ?cr" "?x \<noteq> ?cm"
      using up uc under_names_disjoint [OF vp vc, of ?PH] ne by metis+
    show "\<not> under ?x (path_Dir (dir d child))"
      unfolding path_Dir_layer [OF h vc] rb
      using layer_not_above_home [OF vp, of ?H "''/root/'' @ z"] by simp
  qed
  have qs: "fs sM q = fs s q"
  proof (rule frame)
    show "q \<noteq> dir d child" unfolding q Dc by simp
    show "q \<noteq> ?cr" using b by (simp add: below_def)
    show "q \<noteq> ?cm" unfolding q cm_form by simp
    show "\<not> under q (path_Dir (dir d child))"
      unfolding path_Dir_layer [OF h vc] q
      using layer_not_above_home [OF vc, of ?H "''/root/'' @ z"] by simp
  qed
  show ?thesis
    using copyDir_ok [OF cp] b xs qs by (simp add: copied_def split: option.splits)
qed

lemma child_root_under:
  assumes h: "home d \<noteq> []" and vc: "valid_name child"
    and b: "below (path_Join [dir d child, ''root'']) q"
  shows "under (dir d child) q"
proof -
  let ?PH = "dirprefix (path_Clean (home d))"
  from b obtain z where "q = (?PH @ child @ ''/'') @ ''root'' @ CHR ''/'' # z"
    using below_valid_form [OF valid_root, of "?PH @ child @ ''/''" q]
      layer_sub_form [OF h vc valid_root] by auto
  then have "q = ?PH @ child @ CHR ''/'' # (''root/'' @ z)" by simp
  then show ?thesis
    using under_valid_intro [OF vc, of "''root/'' @ z" ?PH] h vc
    by (simp add: dir_valid)
qed

lemma Create_parent_fs:
  assumes h: "home d \<noteq> []" and vc: "valid_name child" and vp: "valid_name parent"
    and ne: "child \<noteq> parent"
    and cr: "Create d child parent mountLabel s = (None, s')"
    and u: "under (dir d parent) x"
  shows "fs s' x = fs s x"
proof -
  let ?H = "path_Clean (home d)"
  let ?PH = "dirprefix ?H"
  let ?cr = "path_Join [dir d child, ''root'']"
  let ?cm = "path_Join [dir d child, ''mnt'']"
  let ?pr = "path_Join [dir d parent, ''root'']"
  have pne: "parent \<noteq> []" using vp by (simp add: valid_name_def)
  from Create_ok [OF cr] obtain s1 s2 where
    p1: "idtools_MkdirAllAs (path_Dir (dir d child)) s = (None, s1)" and
    p2: "idtools_MkdirAs (dir d child) s1 = (None, s2)" and
    rest: "Create_rest d (dir d child) parent s2 = (None, s')" by blast
  from Create_rest_ok [OF pne rest] obtain sR sM where
    m1: "idtools_MkdirAs ?cr s2 = (None, sR)" and
    m2: "idtools_MkdirAs ?cm sR = (None, sM)" and
    cp: "copyDir ?pr ?cr copyHardlink sM = (None, s')" by blast
  have Dc: "dir d child = ?PH @ child" and Dp: "dir d parent = ?PH @ parent"
    using h vc vp by (simp_all add: dir_valid)
  have cr_form: "?cr = (?PH @ child @ ''/'') @ ''root''" and cm_form: "?cm = (?PH @ child @ ''/'') @ ''mnt''"
    using layer_sub_form [OF h vc valid_root] layer_sub_form [OF h vc valid_mnt] by simp_all
  have up: "under (?PH @ parent) x" using u unfolding Dp .
  from under_valid_form [OF vp up] obtain r where x: "x = ?PH @ parent @ r" by blast
  have disj: "\<And>y. under (?PH @ child) y \<Longrightarrow> x \<noteq> y"
    using up under_names_disjoint [OF vp vc, of ?PH] ne by metis
  have uc1: "under (?PH @ child) (dir d child)" unfolding Dc by (simp add: under_def)
  have uc2: "under (?PH @ child) ?cr"
    unfolding cr_form using under_valid_intro [OF vc, of "''root''" ?PH] by simp
  have uc3: "under (?PH @ child) ?cm"
    unfolding cm_form using under_valid_intro [OF vc, of "''mnt''" ?PH] by simp
  have nb: "\<not> below ?cr x"
    using child_root_under [OF h vc, of x] disj [of x] unfolding Dc by blast
  have na: "\<not> under x (path_Dir (dir d child))"
    unfolding path_Dir_layer [OF h vc] x by (rule layer_not_above_home [OF vp])
  have "fs sM x = fs s x"
    using Create_prep_frame [OF p1 p2 disj [OF uc1] na] MkdirAs_ok [OF m1] MkdirAs_ok [OF m2]
      disj [OF uc2] disj [OF uc3] by simp
  then show ?thesis
    using copyDir_ok [OF cp] nb by (simp add: copied_def)
qed

lemma Remove_frame:
  assumes h: "home d \<noteq> []" and vc: "valid_name child" and vp: "valid_name parent"
    and ne: "child \<noteq> parent"
    and rm: "Remove d parent s = (r, s')"
    and u: "under (dir d child) q"
  shows "fs s' q = fs s q"
proof -
  obtain r1 s1 where ra: "os_RemoveAll (dir d parent) s = (r1, s1)"
    by (cases "os_RemoveAll (dir d parent) s")
  with rm have "s' = s1" by (auto simp: Remove_def split: option.splits if_splits)
  moreover have "\<not> under (dir d parent) q"
    using u under_names_disjoint [OF vp vc, of "dirprefix (path_Clean (home d))" q] ne h vc vp
    by (auto simp: dir_valid)
  ultimately show ?thesis using RemoveAll_frame [OF ra] by simp
qed

text \<open>Runs in a world where no call fails.\<close>

lemma quiet_advances: "advances s s' \<Longrightarrow> quiet s \<Longrightarrow> quiet s'"
  by (simp add: advances_def same_env_def quiet_def)

lemma Create_run_prep:
  assumes "quiet s"
  shows "fst (idtools_MkdirAllAs p s) = None"
    and "fst (idtools_MkdirAs p' (snd (idtools_MkdirAllAs p s))) = None"
    and "quiet (snd (idtools_MkdirAs p' (snd (idtools_MkdirAllAs p s))))"
  using assms by (simp_all add: fsop_defs quiet_def)

lemma Create_rest_run_ok:
  assumes "quiet s2" "parent \<noteq> []"
    and "fs s2 (dir d parent) \<noteq> None" "fs s2 (path_Join [dir d parent, ''root'']) \<noteq> None"
  shows "fst (Create_rest d D parent s2) = None"
  using assms
  by (simp add: Create_rest_def Let_def fsop_defs os_Lstat_def quiet_def)

lemma Create_run_ok:
  assumes "quiet s" "rootIDs s (uidMaps d) (gidMaps d) = Inr ids" "parent \<noteq> []"
    and "fs s (dir d parent) \<noteq> None" "fs s (path_Join [dir d parent, ''root'']) \<noteq> None"
  shows "fst (Create d ident parent mountLabel s) = None"
proof -
  let ?s1 = "snd (idtools_MkdirAllAs (path_Dir (dir d ident)) s)"
  let ?s2 = "snd (idtools_MkdirAs (dir d ident) ?s1)"
  have p1: "idtools_MkdirAllAs (path_Dir (dir d ident)) s = (None, ?s1)"
    using Create_run_prep(1) [OF assms(1)] by (metis prod.collapse)
  have p2: "idtools_MkdirAs (dir d ident) ?s1 = (None, ?s2)"
    using Create_run_prep(2) [OF assms(1)] by (metis prod.collapse)
  have q2: "quiet ?s2" by (rule Create_run_prep(3) [OF assms(1)])
  have "fst (Create_rest d (dir d ident) parent ?s2) = None"
    using Create_prep_grows [OF p1 p2] assms(3-5) by (intro Create_rest_run_ok [OF q2]) auto
  then show ?thesis
    unfolding Create_prepared [OF assms(2) p1 p2]
    by (cases "Create_rest d (dir d ident) parent ?s2") auto
qed

lemma Create_run_cleanup:
  assumes "quiet s" "rootIDs s (uidMaps d) (gidMaps d) = Inr ids"
    and "fst (Create d ident parent mountLabel s) \<noteq> None"
  shows "last (trace (snd (Create d ident parent mountLabel s))) = (CallRemoveAll (dir d ident), None)"
proof -
  let ?s1 = "snd (idtools_MkdirAllAs (path_Dir (dir d ident)) s)"
  let ?s2 = "snd (idtools_MkdirAs (dir d ident) ?s1)"
  have p1: "idtools_MkdirAllAs (path_Dir (dir d ident)) s = (None, ?s1)"
    using Create_run_prep(1) [OF assms(1)] by (metis prod.collapse)
  have p2: "idtools_MkdirAs (dir d ident) ?s1 = (None, ?s2)"
    using Create_run_prep(2) [OF assms(1)] by (metis prod.collapse)
  have q2: "quiet ?s2" by (rule Create_run_prep(3) [OF assms(1)])
  obtain r3 s3 where rest: "Create_rest d (dir d ident) parent ?s2 = (r3, s3)"
    by (cases "Create_rest d (dir d ident) parent ?s2")
  have "quiet s3"
    using rest q2
    by (auto simp: Create_rest_def Let_def fsop_defs os_Lstat_def quiet_def
        split: if_splits option.splits)
  then have "last (trace (snd (os_RemoveAll (dir d ident) s3))) = (CallRemoveAll (dir d ident), None)"
    by (simp add: fsop_defs quiet_def)
  with assms(3) rest show ?thesis
    unfolding Create_prepared [OF assms(2) p1 p2] by (cases r3) auto
qed

lemma Remove_run:
  assumes "quiet s"
  shows "fst (Remove d i s) = None"
    and "fs (snd (Remove d i s)) = (\<lambda>q. if under (dir d i) q then None else fs s q)"
  using assms by (simp_all add: Remove_def fsop_defs quiet_def)


lemma ex_quiet: "quiet ex_sys"
  by (simp add: quiet_def ex_sys_def)

lemma ex_sys_fields:
  "fs ex_sys = ex_fs" "rootIDs ex_sys (uidMaps ex_driver) (gidMaps ex_driver) = Inr (0, 0)"
  by (simp_all add: ex_sys_def)

lemma ex_dirs_more:
  "dir ex_driver ''b'' = ''/h/b''" "dir ex_driver ''zz'' = ''/h/zz''"
  "path_Join [''/h/zz'', ''root''] = ''/h/zz/root''"
  "path_Join [''/h/b'', ''root''] = ''/h/b/root''"
  "valid_name ''b''" "valid_name ''zz''" "valid_name ''p''"
  by (simp_all add: dir_def ex_defs path_defs valid_name_def)

lemma ex_copy_fails_fields:
  "fs ex_sys_copy_fails = ex_fs" "trace ex_sys_copy_fails = []"
  "fault ex_sys_copy_fails = (\<lambda>n. if n = 4 then Some (Errno 5) else if n = 5 then Some EBUSY else None)"
  "partial ex_sys_copy_fails = (\<lambda>n q. n = 4 \<and> q = ''/h/b/root/f'')"
  "rootIDs ex_sys_copy_fails = (\<lambda>u g. Inr (0, 0))"
  by (simp_all add: ex_sys_copy_fails_def ex_sys_def)

lemma ex_dirs_b:
  "path_Dir ''/h/b'' = ''/h''" "path_Join [''/h/b'', ''mnt''] = ''/h/b/mnt''"
  by (simp_all add: path_Dir_def path_defs)

section \<open>The wrapper (claim C9)\<close>

text \<open>
  C9.  The wrapper calls the custom \<^verbatim>\<open>ApplyDiff\<close> first.  When that returns the
  sentinel \<open>ErrApplyDiffFallback\<close>, the wrapper's result is the result of the generic
  driver, run in the world the custom call left; in every other case, an error other
  than the sentinel or a success, the size and the error of the custom call are the
  wrapper's result, unchanged, and so is the world.
\<close>

theorem wrapper_ApplyDiff:
  assumes "applyDiff w ident parent diff st = ((b, err), st')"
  shows "(err = Some ErrApplyDiffFallback \<longrightarrow>
            naiveDiffDriverWithApply_ApplyDiff w ident parent diff st =
              Driver_ApplyDiff w ident parent diff st') \<and>
         (err \<noteq> Some ErrApplyDiffFallback \<longrightarrow>
            naiveDiffDriverWithApply_ApplyDiff w ident parent diff st = ((b, err), st'))"
  using assms by (simp add: naiveDiffDriverWithApply_ApplyDiff_def)

text \<open>
  The theorem at the wrapper that \<^verbatim>\<open>Init\<close> builds around the driver, with a generic
  driver that reports 42 bytes: without a parent the custom call asks for the fallback
  and the generic result comes back.
\<close>

theorem wrapper_ApplyDiff_witness:
  "applyDiff (NaiveDiffDriverWithApply (ApplyDiff ex_driver) (\<lambda>i p diff s. ((42, None), s)))
     ''a'' [] ''tar'' ex_sys = ((0, Some ErrApplyDiffFallback), ex_sys) \<and>
   naiveDiffDriverWithApply_ApplyDiff
     (NaiveDiffDriverWithApply (ApplyDiff ex_driver) (\<lambda>i p diff s. ((42, None), s)))
     ''a'' [] ''tar'' ex_sys = ((42, None), ex_sys)"
proof -
  let ?w = "NaiveDiffDriverWithApply (ApplyDiff ex_driver) (\<lambda>i p diff s. ((42, None), s))"
  have h: "applyDiff ?w ''a'' [] ''tar'' ex_sys = ((0, Some ErrApplyDiffFallback), ex_sys)"
    by (simp add: NaiveDiffDriverWithApply_def ApplyDiff_def)
  from wrapper_ApplyDiff [OF h] h show ?thesis
    by (simp add: NaiveDiffDriverWithApply_def)
qed

section \<open>What \<^verbatim>\<open>Put\<close> returns (claim C7)\<close>

text \<open>
  C7 says that \<^verbatim>\<open>Put\<close> never reports a failure.  The source returns the error of
  the unmount when the last reference to a bind mount is released
  (\<^verbatim>\<open>return err\<close> after the log line).  In the small world, with the second call
  that changes the world set to fail with \<open>EBUSY\<close>: \<^verbatim>\<open>Get\<close> mounts, and the
  \<^verbatim>\<open>Put\<close> that follows returns the error of the unmount.
\<close>

theorem Put_reports_unmount_failure:
  "fst (Put (fst (snd (Get ex_driver ''a'' [] (ex_sys\<lparr>fault := (\<lambda>n. if n = 1 then Some EBUSY else None)\<rparr>))))
          ''a''
          (snd (snd (Get ex_driver ''a'' [] (ex_sys\<lparr>fault := (\<lambda>n. if n = 1 then Some EBUSY else None)\<rparr>)))))
   = Some (SyscallError EBUSY)"
  by (simp add: Get_def Put_def Let_def dir_def ex_defs path_defs sys_defs int64_def)

text \<open>
  C7, amended.  \<^verbatim>\<open>Put\<close> reports a failure in exactly one case: the table has a
  record for the layer, the decrement brings its count to zero or below, the record
  is a bind mount, and the unmount fails; the error is then the error of the unmount.
  Whenever the count reaches zero the record is removed, whether the unmount worked
  or not.
\<close>

theorem Put_fails_iff:
  "(fst (Put d i s) \<noteq> None \<longleftrightarrow>
      (\<exists>r. active d i = Some r \<and> int64 (count r - 1) \<le> 0 \<and> mounted r \<and>
           fst (syscall_Unmount (path r) s) \<noteq> None)) \<and>
   (\<forall>r. active d i = Some r \<and> int64 (count r - 1) \<le> 0 \<longrightarrow>
        active (fst (snd (Put d i s))) i = None \<and>
        (mounted r \<longrightarrow> fst (Put d i s) = fst (syscall_Unmount (path r) s)))"
  by (auto simp: Put_def Let_def split: option.splits prod.splits)

text \<open>
  In the small world nothing fails: \<^verbatim>\<open>Get\<close> mounts, \<^verbatim>\<open>Put\<close> unmounts and returns
  no error, and the record is gone.
\<close>

theorem Put_fails_iff_witness:
  "active (fst (snd (Get ex_driver ''a'' [] ex_sys))) ''a'' =
     Some \<lparr>count = 1, path = ''/h/a/mnt'', mounted = True\<rparr> \<and>
   int64 (count \<lparr>count = 1, path = ''/h/a/mnt'', mounted = True\<rparr> - 1) \<le> 0 \<and>
   fst (Put (fst (snd (Get ex_driver ''a'' [] ex_sys))) ''a'' (snd (snd (Get ex_driver ''a'' [] ex_sys)))) = None \<and>
   active (fst (snd (Put (fst (snd (Get ex_driver ''a'' [] ex_sys))) ''a''
                         (snd (snd (Get ex_driver ''a'' [] ex_sys)))))) ''a'' = None"
proof -
  let ?d = "fst (snd (Get ex_driver ''a'' [] ex_sys))"
  let ?s = "snd (snd (Get ex_driver ''a'' [] ex_sys))"
  let ?r = "\<lparr>count = 1, path = ''/h/a/mnt'', mounted = True\<rparr>"
  have a: "active ?d ''a'' = Some ?r"
    by (simp add: Get_def Let_def dir_def ex_defs path_defs sys_defs)
  have b: "int64 (count ?r - 1) \<le> 0"
    by (simp add: int64_def)
  have c: "fst (syscall_Unmount (path ?r) ?s) = None"
    by (simp add: Get_def Let_def dir_def ex_defs path_defs sys_defs)
  from Put_fails_iff [of ?d "''a''" ?s] a b c show ?thesis
    by simp
qed

section \<open>The table of active mounts (claims C10 and C1)\<close>

subsection \<open>Counts stay positive\<close>

lemma Get_table_ok:
  assumes "table_ok k d" "int k < 2 ^ 63 - 1"
  shows "table_ok (Suc k) (fst (snd (Get d i l s)))"
  unfolding table_ok_def
proof (intro allI impI)
  fix j r assume a: "active (fst (snd (Get d i l s))) j = Some r"
  show "1 \<le> count r \<and> count r \<le> int (Suc k)"
  proof (cases "j = i")
    case False
    with a have "active d j = Some r" by (simp add: Get_active_other)
    with assms show ?thesis by (fastforce simp: table_ok_def)
  next
    case True
    show ?thesis
    proof (cases "active d i")
      case None
      from Get_miss[OF None, of l s] a True have "count r = 1" by auto
      then show ?thesis by auto
    next
      case (Some r0)
      with assms have b: "1 \<le> count r0" "count r0 \<le> int k" by (auto simp: table_ok_def)
      from a True Some have "r = r0\<lparr>count := int64 (count r0 + 1)\<rparr>" by (simp add: Get_hit)
      moreover have "int64 (count r0 + 1) = count r0 + 1" using b assms(2) by (intro int64_id) auto
      ultimately show ?thesis using b by simp
    qed
  qed
qed

lemma Put_table_ok:
  assumes "table_ok k d" "int k < 2 ^ 63 - 1"
  shows "table_ok (Suc k) (fst (snd (Put d i s)))"
  unfolding table_ok_def
proof (intro allI impI)
  fix j r assume a: "active (fst (snd (Put d i s))) j = Some r"
  show "1 \<le> count r \<and> count r \<le> int (Suc k)"
  proof (cases "j = i")
    case False
    with a have "active d j = Some r" by (simp add: Put_active_other)
    with assms show ?thesis by (fastforce simp: table_ok_def)
  next
    case True
    show ?thesis
    proof (cases "active d i")
      case None
      with a True show ?thesis by (simp add: Put_miss)
    next
      case (Some r0)
      with assms have b: "1 \<le> count r0" "count r0 \<le> int k" by (auto simp: table_ok_def)
      have c: "int64 (count r0 - 1) = count r0 - 1" using b assms(2) by (intro int64_id) auto
      from a True Some have "r = r0\<lparr>count := count r0 - 1\<rparr> \<and> 0 < count r0 - 1"
        by (simp add: Put_hit c split: if_splits)
      then show ?thesis using b by simp
    qed
  qed
qed

lemma exec_table_ok:
  assumes "table_ok k (fst st)" "int k < 2 ^ 63 - 1"
  shows "table_ok (Suc k) (fst (exec x st))"
proof -
  have w: "table_ok (Suc k) (fst st)" using assms(1) by (fastforce simp: table_ok_def)
  obtain d s where st: "st = (d, s)" by (cases st)
  show ?thesis using assms w unfolding st
    by (cases x) (simp_all add: Get_table_ok Put_table_ok)
qed

lemma run_table_ok:
  "table_ok k (fst st) \<Longrightarrow> int (k + length ops) < 2 ^ 63 \<Longrightarrow>
   table_ok (k + length ops) (fst (run ops st))"
proof (induction ops arbitrary: st k)
  case Nil
  then show ?case by simp
next
  case (Cons x xs)
  have "table_ok (Suc k) (fst (exec x st))"
    using Cons.prems by (intro exec_table_ok) auto
  from Cons.IH[OF this] Cons.prems(2) show ?case by simp
qed

lemma exec_stable:
  assumes "active (fst st) i = Some r" "active (fst (exec x st)) i = Some r'"
  shows "path r' = path r \<and> mounted r' = mounted r"
proof -
  obtain d s where st: "st = (d, s)" by (cases st)
  show ?thesis
  proof (cases x)
    case (OpGet j l)
    then show ?thesis using assms unfolding st
      by (cases "j = i") (auto simp: Get_hit Get_active_other)
  next
    case (OpPut j)
    then show ?thesis using assms unfolding st
      by (cases "j = i") (auto simp: Put_hit Put_active_other split: if_splits)
  qed (use assms st in auto)
qed

lemma Init_active: "fst (Init h opts u g s) = Inr d \<Longrightarrow> active d = Map.empty"
  by (auto simp: Init_def split: sum.splits prod.splits option.splits if_splits)

subsection \<open>Balanced sequences\<close>

lemma exec_active_fs_ops:
  "active (fst (exec (OpCreate a b c) st)) = active (fst st)"
  "active (fst (exec (OpRemove a) st)) = active (fst st)"
  "active (fst (exec (OpApplyDiff a b c) st)) = active (fst st)"
  by (cases st; simp)+












subsection \<open>The invariant of the table (claim C10)\<close>

text \<open>
  C10.  \<^verbatim>\<open>Init\<close> returns a driver with an empty table.  After any sequence of fewer
  than \<open>2^63\<close> driver calls on it (\<^verbatim>\<open>Get\<close> and \<^verbatim>\<open>Put\<close> on any layers, with
  \<^verbatim>\<open>Create\<close>, \<^verbatim>\<open>Remove\<close> and \<^verbatim>\<open>ApplyDiff\<close> in between, in any world), every record
  of the table has a count of at least one; and a call that finds a record and leaves
  a record for the same layer leaves its path and its mounted flag as they were: only
  the count changes between the \<^verbatim>\<open>Get\<close> that inserts a record and the \<^verbatim>\<open>Put\<close>
  that deletes it.  The bound on the number of calls keeps the 64-bit counter from
  wrapping around.
\<close>

theorem active_table_invariant:
  assumes "fst (Init home' options u g s) = Inr d0" and "length ops < 2 ^ 63"
  shows "(\<forall>i r. active (fst (run ops (d0, s1))) i = Some r \<longrightarrow> 1 \<le> count r) \<and>
         (\<forall>x i r r'. active (fst (run ops (d0, s1))) i = Some r \<and>
                     active (fst (exec x (run ops (d0, s1)))) i = Some r' \<longrightarrow>
                     path r' = path r \<and> mounted r' = mounted r)"
proof -
  have "table_ok 0 (fst (d0, s1))"
    using Init_active [OF assms(1)] by (simp add: table_ok_def)
  moreover have "int (0 + length ops) < 2 ^ 63" using assms(2)
    by (metis add_0 of_nat_less_numeral_power_cancel_iff)
  ultimately have "table_ok (0 + length ops) (fst (run ops (d0, s1)))"
    by (rule run_table_ok)
  then show ?thesis
    using exec_stable by (fastforce simp: table_ok_def)
qed


text \<open>
  The theorem in the small world: two \<^verbatim>\<open>Get\<close>s and a \<^verbatim>\<open>Put\<close> on the layer
  \<open>a\<close> leave a record with count one, and one more \<^verbatim>\<open>Get\<close> changes the count
  only.
\<close>

theorem active_table_invariant_witness:
  "fst (Init ''/h'' [] [] [] ex_sys) = Inr ex_driver \<and> length ex_ops < 2 ^ 63 \<and>
   active (fst (run ex_ops (ex_driver, ex_sys))) ''a'' =
     Some \<lparr>count = 1, path = ''/h/a/mnt'', mounted = True\<rparr> \<and>
   1 \<le> count \<lparr>count = 1, path = ''/h/a/mnt'', mounted = True\<rparr> \<and>
   active (fst (exec (OpGet ''a'' []) (run ex_ops (ex_driver, ex_sys)))) ''a'' =
     Some \<lparr>count = 2, path = ''/h/a/mnt'', mounted = True\<rparr> \<and>
   path \<lparr>count = 2, path = ''/h/a/mnt'', mounted = True\<rparr> = path \<lparr>count = 1, path = ''/h/a/mnt'', mounted = True\<rparr> \<and>
   mounted \<lparr>count = 2, path = ''/h/a/mnt'', mounted = True\<rparr> = mounted \<lparr>count = 1, path = ''/h/a/mnt'', mounted = True\<rparr>"
proof -
  have h1: "fst (Init ''/h'' [] [] [] ex_sys) = Inr ex_driver"
    by (simp add: Init_def idtools_MkdirAllAs_def ex_defs sys_defs)
  have h2: "length ex_ops < 2 ^ 63" by (simp add: ex_ops_def)
  have a: "active (fst (run ex_ops (ex_driver, ex_sys))) ''a'' =
     Some \<lparr>count = 1, path = ''/h/a/mnt'', mounted = True\<rparr>"
    by (simp add: ex_ops_def Get_def Put_def Let_def dir_def ex_defs path_defs sys_defs int64_def)
  have b: "active (fst (exec (OpGet ''a'' []) (run ex_ops (ex_driver, ex_sys)))) ''a'' =
     Some \<lparr>count = 2, path = ''/h/a/mnt'', mounted = True\<rparr>"
    by (simp add: ex_ops_def Get_def Put_def Let_def dir_def ex_defs path_defs sys_defs int64_def)
  note t = active_table_invariant [OF h1 h2, of ex_sys]
  from t a have "1 \<le> count \<lparr>count = 1, path = ''/h/a/mnt'', mounted = True\<rparr>" by blast
  moreover from t a b have "path \<lparr>count = 2, path = ''/h/a/mnt'', mounted = True\<rparr> = path \<lparr>count = 1, path = ''/h/a/mnt'', mounted = True\<rparr> \<and>
   mounted \<lparr>count = 2, path = ''/h/a/mnt'', mounted = True\<rparr> = mounted \<lparr>count = 1, path = ''/h/a/mnt'', mounted = True\<rparr>" by blast
  ultimately show ?thesis using h1 h2 a b by blast
qed

subsection \<open>The refcount law (claim C1)\<close>




section \<open>\<^verbatim>\<open>Put\<close> without a record (claim C8)\<close>

text \<open>
  C8.  Without a record \<^verbatim>\<open>Put\<close> returns no error, whatever it finds.  The second
  half of the claim does not hold for the source: the guard before the unmount is
  \<^verbatim>\<open>d.Exists(mntDir)\<close>, and \<^verbatim>\<open>Exists\<close> joins its argument to the home directory
  once more.  With the home directory \<open>/h\<close> the guard looks at \<open>/h/h/a/mnt\<close>.
  In the small world, with \<open>/h/a/mnt\<close> present and mounted and no record for \<open>a\<close>,
  \<^verbatim>\<open>Put\<close> returns without any call of unmount: the world is unchanged, trace and
  mount points included.
\<close>

theorem Put_leaves_stale_mount:
  "active ex_driver ''a'' = None \<and>
   path_Join [dir ex_driver ''a'', ''mnt''] = ''/h/a/mnt'' \<and>
   fs (ex_sys\<lparr>mounts := {''/h/a/mnt''}\<rparr>) ''/h/a/mnt'' = Some Dir \<and>
   ''/h/a/mnt'' \<in> mounts (ex_sys\<lparr>mounts := {''/h/a/mnt''}\<rparr>) \<and>
   dir ex_driver (path_Join [dir ex_driver ''a'', ''mnt'']) = ''/h/h/a/mnt'' \<and>
   Put ex_driver ''a'' (ex_sys\<lparr>mounts := {''/h/a/mnt''}\<rparr>) =
     (None, ex_driver, ex_sys\<lparr>mounts := {''/h/a/mnt''}\<rparr>)"
  by (simp add: Put_def Exists_def Let_def dir_def ex_defs path_defs sys_defs)

section \<open>\<^verbatim>\<open>ApplyDiff\<close>: the fallback (claim C2)\<close>

text \<open>
  C2.  When the parent is the empty string, and when the \<open>root\<close> directory of the
  parent is missing, \<^verbatim>\<open>ApplyDiff\<close> returns size 0 with the sentinel
  \<open>ErrApplyDiffFallback\<close> and leaves the whole world as it was: the file tree (so
  also everything under the directory of the layer), the mount points and the trace,
  to which no call has been added.
\<close>

theorem ApplyDiff_fallback:
  assumes "parent = [] \<or> fs s (path_Join [dir d parent, ''root'']) = None"
  shows "ApplyDiff d ident parent diff s = ((0, Some ErrApplyDiffFallback), s)"
  using assms by (auto simp: ApplyDiff_def Let_def os_Stat_def)

text \<open>
  In the small world: no parent, and then the parent \<open>zz\<close>, which has no directory.
\<close>

theorem ApplyDiff_fallback_witness:
  "ApplyDiff ex_driver ''a'' [] ''tar'' ex_sys = ((0, Some ErrApplyDiffFallback), ex_sys) \<and>
   fs ex_sys (path_Join [dir ex_driver ''zz'', ''root'']) = None \<and>
   ApplyDiff ex_driver ''a'' ''zz'' ''tar'' ex_sys = ((0, Some ErrApplyDiffFallback), ex_sys)"
proof -
  have h: "fs ex_sys (path_Join [dir ex_driver ''zz'', ''root'']) = None"
    by (simp add: dir_def ex_defs path_defs)
  from ApplyDiff_fallback [of "[]" ex_sys ex_driver "''a''" "''tar''"]
       ApplyDiff_fallback [of "''zz''" ex_sys ex_driver "''a''" "''tar''"] h
  show ?thesis by simp
qed

section \<open>\<^verbatim>\<open>ApplyDiff\<close>: failure (claim C3)\<close>

text \<open>
  C3 says that the temporary directory is removed on every failure.  The deferred
  function calls \<^verbatim>\<open>os.RemoveAll\<close> on it and drops the result.  In the small world,
  with an extraction that fails after it has written two files and a removal that
  fails with \<open>EBUSY\<close>, \<^verbatim>\<open>ApplyDiff\<close> returns the error of the extraction and the
  temporary directory is still there, with the file \<open>g\<close> in it.
\<close>

theorem ApplyDiff_failure_keeps_tmp:
  "fst (ApplyDiff ex_driver ''a'' ''p'' ''tar'' ex_sys_stuck) =
     (0, Some (ExternalError ''ApplyUncompressedLayer'' (Errno 5))) \<and>
   last (trace (snd (ApplyDiff ex_driver ''a'' ''p'' ''tar'' ex_sys_stuck))) =
     (CallRemoveAll ''/h/a/tmproot000000007'', Some EBUSY) \<and>
   fs ex_sys_stuck ''/h/a/tmproot000000007/g'' = None \<and>
   fs (snd (ApplyDiff ex_driver ''a'' ''p'' ''tar'' ex_sys_stuck)) ''/h/a/tmproot000000007/g'' =
     Some (File 9)"
proof -
  let ?s = ex_sys_stuck
  let ?R = "ApplyDiff ex_driver ''a'' ''p'' ''tar'' ?s"
  note run = ApplyDiff_run_extract_fails [where parent = "''p''" and s = ?s and d = ex_driver
      and ident = "''a''" and e = "Errno 5" and diff = "''tar''"]
  have r: "fst ?R = (0, Some (ExternalError ''ApplyUncompressedLayer'' (Errno 5)))"
    using run(1) by (simp add: ex_dirs ex_stuck_fields ex_fs_def)
  have l: "last (trace (snd ?R)) = (CallRemoveAll ''/h/a/tmproot000000007'', Some EBUSY)"
    using run(2) by (simp add: ex_dirs ex_stuck_fields ex_fs_def)
  have b: "below ''/h/a/tmproot000000007'' ''/h/a/tmproot000000007/g''"
    by (simp add: below_def under_def dirprefix_def)
  have k: "fs (snd ?R) ''/h/a/tmproot000000007/g'' = Some (File 9)"
    using run(3) [where q = "''/h/a/tmproot000000007/g''"] b
    by (simp add: ex_dirs ex_stuck_fields ex_fs_def ex_extracted_def)
  have "fs ?s ''/h/a/tmproot000000007/g'' = None" by (simp add: ex_stuck_fields ex_fs_def)
  with r l k show ?thesis by simp
qed

text \<open>
  C3, amended.  Let the fallback checks pass (a parent is given and its \<open>root\<close>
  exists) and let \<^verbatim>\<open>ApplyDiff\<close> return an error, whichever call failed: the creation
  of the temporary directory, the hard-link copy, the extraction or the rename.  Then
  the size is 0, the error is not the fallback sentinel, and every name under the
  \<open>root\<close> of the layer has the entry it had before the call; indeed nothing outside
  the temporary directory has changed.  When the temporary directory could not be made
  the file tree is as it was.  When it was made, the last call of \<^verbatim>\<open>ApplyDiff\<close> is
  \<^verbatim>\<open>os.RemoveAll\<close> on it; when that call succeeds nothing is left at or under the
  temporary name, and its failure is ignored.  The home directory of the driver is not
  the empty string.
\<close>

theorem ApplyDiff_failure:
  assumes "home d \<noteq> []" and "parent \<noteq> []"
    and "fs s (path_Join [dir d parent, ''root'']) \<noteq> None"
    and "ApplyDiff d ident parent diff s = ((sz, Some e), s')"
  shows "sz = 0 \<and> e \<noteq> ErrApplyDiffFallback \<and>
         (\<forall>q. under (path_Join [dir d ident, ''root'']) q \<longrightarrow> fs s' q = fs s q) \<and>
         (\<forall>q. \<not> under (tempname s (dir d ident) ''tmproot'') q \<longrightarrow> fs s' q = fs s q) \<and>
         (snd (fst (ioutil_TempDir (dir d ident) ''tmproot'' s)) \<noteq> None \<longrightarrow> fs s' = fs s) \<and>
         (snd (fst (ioutil_TempDir (dir d ident) ''tmproot'' s)) = None \<longrightarrow>
            (\<exists>res. last (trace s') = (CallRemoveAll (tempname s (dir d ident) ''tmproot''), res) \<and>
                   (res = None \<longrightarrow>
                      (\<forall>q. under (tempname s (dir d ident) ''tmproot'') q \<longrightarrow> fs s' q = None))))"
proof -
  let ?D = "dir d ident"
  let ?tmp = "tempname s ?D ''tmproot''"
  let ?pr = "path_Join [dir d parent, ''root'']"
  have main: "sz = 0 \<and> e \<noteq> ErrApplyDiffFallback \<and>
         (\<forall>q. \<not> under ?tmp q \<longrightarrow> fs s' q = fs s q) \<and>
         (snd (fst (ioutil_TempDir ?D ''tmproot'' s)) \<noteq> None \<longrightarrow> fs s' = fs s) \<and>
         (snd (fst (ioutil_TempDir ?D ''tmproot'' s)) = None \<longrightarrow>
            (\<exists>res. last (trace s') = (CallRemoveAll ?tmp, res) \<and>
                   (res = None \<longrightarrow> (\<forall>q. under ?tmp q \<longrightarrow> fs s' q = None))))"
  proof -
    note unf = assms(4) [unfolded ApplyDiff_checked [OF assms(2,3)]]
    consider (fail) e1 s1 where "ioutil_TempDir ?D ''tmproot'' s = (([], Some e1), s1)"
    | (ok) s1 where "ioutil_TempDir ?D ''tmproot'' s = ((?tmp, None), s1)"
    using TempDir_result [of ?D "''tmproot''" s] by blast
  then show ?thesis
  proof cases
    case fail
    with unf have "sz = 0" "e = e1" "s' = s1" by simp_all
    with TempDir_fail [OF fail] fail show ?thesis by simp
  next
    case ok
    obtain sz2 r2 s2 where rest: "ApplyDiff_rest d ?D ?pr ?tmp diff s1 = ((sz2, r2), s2)"
      by (cases "ApplyDiff_rest d ?D ?pr ?tmp diff s1") auto
    with unf ok obtain e2 where r2: "r2 = Some e2"
      by (cases r2) simp_all
    obtain r3 s3 where rm: "os_RemoveAll ?tmp s2 = (r3, s3)" by (cases "os_RemoveAll ?tmp s2")
    from unf ok rest r2 rm have res: "sz = sz2" "e = e2" "s' = s3"
      by simp_all
    from ApplyDiff_rest_fail [OF rest [unfolded r2]] have
      f2: "sz2 = 0" "e2 \<noteq> ErrApplyDiffFallback" "\<forall>q. \<not> under ?tmp q \<longrightarrow> fs s2 q = fs s1 q"
      by simp_all
    from TempDir_ok [OF ok] have f1: "fs s1 = (fs s)(?tmp \<mapsto> Dir)" by simp
    have frame: "\<forall>q. \<not> under ?tmp q \<longrightarrow> fs s' q = fs s q"
    proof (intro allI impI)
      fix q assume nq: "\<not> under ?tmp q"
      then have "q \<noteq> ?tmp" by auto
      with nq f1 f2(3) RemoveAll_frame [OF rm nq] res(3) show "fs s' q = fs s q" by simp
    qed
    from RemoveAll_trace [OF rm] res(3) have
      "\<exists>res. last (trace s') = (CallRemoveAll ?tmp, res) \<and>
             (res = None \<longrightarrow> (\<forall>q. under ?tmp q \<longrightarrow> fs s' q = None))"
      by auto
    with res f2 frame ok show ?thesis by simp
  qed
  qed
  moreover have "\<forall>q. under (path_Join [?D, ''root'']) q \<longrightarrow> fs s' q = fs s q"
    using main root_tmp_disjoint [OF assms(1), of ident _ s] by blast
  ultimately show ?thesis by blast
qed

text \<open>
  In the small world with a failing extraction: the error of the extraction comes back,
  the file in the \<open>root\<close> of the layer is still there, and the file the extraction
  had written to the temporary directory is gone.
\<close>

theorem ApplyDiff_failure_witness:
  "home ex_driver \<noteq> [] \<and> ''p'' \<noteq> [] \<and>
   fs ex_sys_broken (path_Join [dir ex_driver ''p'', ''root'']) \<noteq> None \<and>
   fst (ApplyDiff ex_driver ''a'' ''p'' ''tar'' ex_sys_broken) =
     (0, Some (ExternalError ''ApplyUncompressedLayer'' (Errno 5))) \<and>
   fs ex_sys_broken ''/h/a/root/f'' = Some (File 7) \<and>
   fs (snd (ApplyDiff ex_driver ''a'' ''p'' ''tar'' ex_sys_broken)) ''/h/a/root/f'' = Some (File 7) \<and>
   fs (snd (ApplyDiff ex_driver ''a'' ''p'' ''tar'' ex_sys_broken)) ''/h/a/tmproot000000007/g'' = None"
proof -
  let ?s = ex_sys_broken
  let ?R = "ApplyDiff ex_driver ''a'' ''p'' ''tar'' ?s"
  let ?e = "ExternalError ''ApplyUncompressedLayer'' (Errno 5)"
  have h1: "home ex_driver \<noteq> []" and h2: "''p'' \<noteq> []" by (simp_all add: ex_dirs)
  have h3: "fs ?s (path_Join [dir ex_driver ''p'', ''root'']) \<noteq> None"
    by (simp add: ex_dirs ex_broken_fields ex_fs_def)
  have r: "fst ?R = (0, Some ?e)" and l: "last (trace (snd ?R)) = (CallRemoveAll ''/h/a/tmproot000000007'', None)"
    using ApplyDiff_run_extract_fails [where parent = "''p''" and s = ?s and d = ex_driver
        and ident = "''a''" and e = "Errno 5" and diff = "''tar''"]
    by (simp_all add: ex_dirs ex_broken_fields ex_fs_def)
  then have h4: "?R = ((0, Some ?e), snd ?R)" by (metis prod.collapse)
  note t = ApplyDiff_failure [OF h1 h2 h3 h4]
  have u1: "under (path_Join [dir ex_driver ''a'', ''root'']) ''/h/a/root/f''"
    by (simp add: ex_dirs under_def dirprefix_def)
  have u2: "under (tempname ?s (dir ex_driver ''a'') ''tmproot'') ''/h/a/tmproot000000007/g''"
    by (simp add: ex_dirs ex_broken_fields under_def dirprefix_def)
  have ok: "snd (fst (ioutil_TempDir (dir ex_driver ''a'') ''tmproot'' ?s)) = None"
    by (simp add: ioutil_TempDir_def Let_def fault_now_def ex_dirs ex_broken_fields ex_fs_def)
  have f: "fs ?s ''/h/a/root/f'' = Some (File 7)" by (simp add: ex_broken_fields ex_fs_def)
  from t u1 f have c1: "fs (snd ?R) ''/h/a/root/f'' = Some (File 7)" by simp
  from t ok obtain res where
    "last (trace (snd ?R)) = (CallRemoveAll (tempname ?s (dir ex_driver ''a'') ''tmproot''), res)"
    "res = None \<longrightarrow> (\<forall>q. under (tempname ?s (dir ex_driver ''a'') ''tmproot'') q \<longrightarrow> fs (snd ?R) q = None)"
    by blast
  with l u2 have c2: "fs (snd ?R) ''/h/a/tmproot000000007/g'' = None" by simp
  from h1 h2 h3 r f c1 c2 show ?thesis by simp
qed

section \<open>\<^verbatim>\<open>ApplyDiff\<close>: success (claim C4)\<close>




section \<open>\<^verbatim>\<open>Create\<close>: failure (claim C5)\<close>

text \<open>
  C5 says that the directory of the layer is removed on every failure.  The deferred
  function calls \<^verbatim>\<open>os.RemoveAll\<close> on it and drops the result.  In the small world,
  with a copy that fails after it has linked one file and a removal that fails with
  \<open>EBUSY\<close>, \<^verbatim>\<open>Create\<close> of the layer \<open>b\<close> returns the error of the copy and leaves
  the directory of the layer behind, with its \<open>root\<close> and the file in it.
\<close>

theorem Create_failure_keeps_layer:
  "fst (Create ex_driver ''b'' ''p'' [] ex_sys_copy_fails) = Some (ExternalError ''copyDir'' (Errno 5)) \<and>
   last (trace (snd (Create ex_driver ''b'' ''p'' [] ex_sys_copy_fails))) =
     (CallRemoveAll ''/h/b'', Some EBUSY) \<and>
   fs ex_sys_copy_fails ''/h/b'' = None \<and>
   fs (snd (Create ex_driver ''b'' ''p'' [] ex_sys_copy_fails)) ''/h/b'' = Some Dir \<and>
   fs (snd (Create ex_driver ''b'' ''p'' [] ex_sys_copy_fails)) ''/h/b/root'' = Some Dir \<and>
   fs (snd (Create ex_driver ''b'' ''p'' [] ex_sys_copy_fails)) ''/h/b/root/f'' = Some (File 7)"
  by (simp add: Create_def Create_rest_def Let_def fsop_defs os_Lstat_def copied_def
      ex_copy_fails_fields ex_dirs ex_dirs_more ex_dirs_b ex_fs_def
      under_def below_def rebase_def dirprefix_def)

text \<open>
  C5, amended.  Once the directory of the new layer has been made (the identity mapping
  resolved, the home directory and the directory of the layer created), every error
  that \<^verbatim>\<open>Create\<close> returns is returned after a last call \<^verbatim>\<open>os.RemoveAll\<close> on the
  directory of the layer; when that call succeeds nothing is left at or under the
  directory of the layer, and its failure is ignored.  With a parent whose directory or
  whose \<open>root\<close> is missing, \<^verbatim>\<open>Create\<close> fails with the not-found error of the \<^verbatim>\<open>Lstat\<close>
  that missed: of the directory of the parent when that is missing, of its \<open>root\<close>
  otherwise.  Layers are named by valid names (one path component), and the parent is
  not the new layer itself when only its directory is missing.
\<close>

theorem Create_failure:
  assumes "rootIDs s (uidMaps d) (gidMaps d) = Inr ids"
    and "idtools_MkdirAllAs (path_Dir (dir d ident)) s = (None, s1)"
    and "idtools_MkdirAs (dir d ident) s1 = (None, s2)"
  shows "(\<forall>e s'. Create d ident parent mountLabel s = (Some e, s') \<longrightarrow>
            (\<exists>res. last (trace s') = (CallRemoveAll (dir d ident), res) \<and>
                   (res = None \<longrightarrow> (\<forall>q. under (dir d ident) q \<longrightarrow> fs s' q = None)))) \<and>
         (home d \<noteq> [] \<and> valid_name ident \<and> valid_name parent \<and>
          (fs s (path_Join [dir d parent, ''root'']) = None \<or>
           fs s (dir d parent) = None \<and> parent \<noteq> ident) \<longrightarrow>
            (\<exists>p. fst (Create d ident parent mountLabel s) = Some (PathError ''lstat'' p ENOENT) \<and>
                 os_IsNotExist (PathError ''lstat'' p ENOENT) \<and>
                 p = (if fs s2 (dir d parent) = None then dir d parent
                      else path_Join [dir d parent, ''root''])))"
proof (intro conjI allI impI)
  fix e s' assume "Create d ident parent mountLabel s = (Some e, s')"
  from Create_cleanup [OF assms this]
  show "\<exists>res. last (trace s') = (CallRemoveAll (dir d ident), res) \<and>
              (res = None \<longrightarrow> (\<forall>q. under (dir d ident) q \<longrightarrow> fs s' q = None))" .
next
  assume a: "home d \<noteq> [] \<and> valid_name ident \<and> valid_name parent \<and>
          (fs s (path_Join [dir d parent, ''root'']) = None \<or>
           fs s (dir d parent) = None \<and> parent \<noteq> ident)"
  then have ne: "parent \<noteq> []" by (auto simp: valid_name_def)
  have "fs s2 (dir d parent) = None \<or> fs s2 (path_Join [dir d parent, ''root'']) = None"
    using a parent_root_untouched [OF _ _ _ assms(2,3), of parent]
      parent_dir_untouched [OF _ _ _ _ assms(2,3), of parent] by auto
  from Create_rest_notfound [OF ne this, of "dir d ident"]
  show "\<exists>p. fst (Create d ident parent mountLabel s) = Some (PathError ''lstat'' p ENOENT) \<and>
                 os_IsNotExist (PathError ''lstat'' p ENOENT) \<and>
                 p = (if fs s2 (dir d parent) = None then dir d parent
                      else path_Join [dir d parent, ''root''])"
    unfolding Create_prepared [OF assms] by (simp add: os_IsNotExist_def)
qed

theorem Create_failure_witness:
  "rootIDs ex_sys (uidMaps ex_driver) (gidMaps ex_driver) = Inr (0, 0) \<and>
   fst (idtools_MkdirAllAs (path_Dir (dir ex_driver ''b'')) ex_sys) = None \<and>
   fst (idtools_MkdirAs (dir ex_driver ''b'')
          (snd (idtools_MkdirAllAs (path_Dir (dir ex_driver ''b'')) ex_sys))) = None \<and>
   fs ex_sys ''/h/zz'' = None \<and>
   fst (Create ex_driver ''b'' ''zz'' [] ex_sys) = Some (PathError ''lstat'' ''/h/zz'' ENOENT) \<and>
   fs (snd (Create ex_driver ''b'' ''zz'' [] ex_sys)) ''/h/b'' = None \<and>
   fs (snd (Create ex_driver ''b'' ''zz'' [] ex_sys)) ''/h/b/root'' = None"
proof -
  let ?s1 = "snd (idtools_MkdirAllAs (path_Dir (dir ex_driver ''b'')) ex_sys)"
  let ?s2 = "snd (idtools_MkdirAs (dir ex_driver ''b'') ?s1)"
  let ?R = "Create ex_driver ''b'' ''zz'' [] ex_sys"
  note h1 = ex_sys_fields(2)
  have f1: "fst (idtools_MkdirAllAs (path_Dir (dir ex_driver ''b'')) ex_sys) = None"
    and f2: "fst (idtools_MkdirAs (dir ex_driver ''b'') ?s1) = None"
    using Create_run_prep [OF ex_quiet] by simp_all
  from f1 have p1: "idtools_MkdirAllAs (path_Dir (dir ex_driver ''b'')) ex_sys = (None, ?s1)"
    by (metis prod.collapse)
  from f2 have p2: "idtools_MkdirAs (dir ex_driver ''b'') ?s1 = (None, ?s2)"
    by (metis prod.collapse)
  note t = Create_failure [OF h1 p1 p2, of "''zz''" "[]"]
  have z: "fs ex_sys ''/h/zz'' = None" "fs ex_sys ''/h/zz/root'' = None"
    by (simp_all add: ex_sys_fields ex_fs_def)
  have "fs ?s2 (dir ex_driver ''zz'') = fs ex_sys (dir ex_driver ''zz'')"
    by (rule parent_dir_untouched [OF _ _ _ _ p1 p2]) (simp_all add: ex_dirs ex_dirs_more)
  then have z2: "fs ?s2 (dir ex_driver ''zz'') = None" using z by (simp add: ex_dirs_more)
  from t z z2 have r: "fst ?R = Some (PathError ''lstat'' ''/h/zz'' ENOENT)"
    by (simp add: ex_dirs ex_dirs_more)
  then have c: "?R = (Some (PathError ''lstat'' ''/h/zz'' ENOENT), snd ?R)"
    by (metis prod.collapse)
  from t c obtain res where
    l: "last (trace (snd ?R)) = (CallRemoveAll (dir ex_driver ''b''), res)"
    and g: "res = None \<longrightarrow> (\<forall>q. under (dir ex_driver ''b'') q \<longrightarrow> fs (snd ?R) q = None)"
    by blast
  have "last (trace (snd ?R)) = (CallRemoveAll (dir ex_driver ''b''), None)"
    using r by (intro Create_run_cleanup [OF ex_quiet h1]) simp
  with l have "res = None" by simp
  with g have gone: "\<And>q. under ''/h/b'' q \<Longrightarrow> fs (snd ?R) q = None"
    by (simp add: ex_dirs_more)
  have "under ''/h/b'' ''/h/b''" "under ''/h/b'' ''/h/b/root''"
    by (simp_all add: under_def dirprefix_def)
  with gone have "fs (snd ?R) ''/h/b'' = None" "fs (snd ?R) ''/h/b/root'' = None" by blast+
  with h1 f1 f2 z r show ?thesis by simp
qed

section \<open>\<^verbatim>\<open>Create\<close> shares the files of the parent (claim C6)\<close>

text \<open>
  C6.  After a successful \<^verbatim>\<open>Create\<close> of a child with a parent (two different valid
  names), every name below the \<open>root\<close> of the child holds the copy of the entry at the
  corresponding name below the \<open>root\<close> of the parent, where \<^verbatim>\<open>copyDir\<close> is the model
  of the Hardlink Copy Engine written from the specification.  In particular a regular
  file of the parent is, in the child, the same inode, and the parent still holds it,
  since \<^verbatim>\<open>Create\<close> changes nothing under the directory of the parent.  A following
  \<^verbatim>\<open>Remove\<close> of the parent changes nothing under the directory of the child: the child
  keeps these files, with the same inode.
\<close>

theorem Create_shares_inodes:
  assumes "home d \<noteq> []" and "valid_name child" and "valid_name parent" and "child \<noteq> parent"
    and "Create d child parent mountLabel s = (None, s1)"
    and "Remove d parent s1 = (r, s2)"
  shows "(\<forall>q. below (path_Join [dir d child, ''root'']) q \<longrightarrow>
            fs s1 q =
              (case fs s (rebase (path_Join [dir d parent, ''root''])
                            (path_Join [dir d child, ''root'']) q) of
                 Some x \<Rightarrow> Some (copy_node copyHardlink x)
               | None \<Rightarrow> fs s q)) \<and>
         (\<forall>q i. below (path_Join [dir d child, ''root'']) q \<and>
                fs s (rebase (path_Join [dir d parent, ''root''])
                        (path_Join [dir d child, ''root'']) q) = Some (File i) \<longrightarrow>
                fs s1 q = Some (File i) \<and> fs s2 q = Some (File i)) \<and>
         (\<forall>q. under (dir d parent) q \<longrightarrow> fs s1 q = fs s q) \<and>
         (\<forall>q. under (dir d child) q \<longrightarrow> fs s2 q = fs s1 q)"
proof -
  let ?cr = "path_Join [dir d child, ''root'']"
  let ?pr = "path_Join [dir d parent, ''root'']"
  have a: "\<forall>q. below ?cr q \<longrightarrow>
            fs s1 q = (case fs s (rebase ?pr ?cr q) of
                         Some x \<Rightarrow> Some (copy_node copyHardlink x) | None \<Rightarrow> fs s q)"
    using Create_child_fs [OF assms(1-5)] by blast
  have c: "\<forall>q. under (dir d child) q \<longrightarrow> fs s2 q = fs s1 q"
    using Remove_frame [OF assms(1-4) assms(6)] by blast
  have u: "\<And>q. below ?cr q \<Longrightarrow> under (dir d child) q"
    by (rule child_root_under [OF assms(1,2)])
  have p: "\<forall>q. under (dir d parent) q \<longrightarrow> fs s1 q = fs s q"
    using Create_parent_fs [OF assms(1-5)] by blast
  have b: "\<forall>q i. below ?cr q \<and> fs s (rebase ?pr ?cr q) = Some (File i) \<longrightarrow>
                 fs s1 q = Some (File i) \<and> fs s2 q = Some (File i)"
  proof (intro allI impI)
    fix q i assume h: "below ?cr q \<and> fs s (rebase ?pr ?cr q) = Some (File i)"
    with a have "fs s1 q = Some (File i)" by simp
    moreover from h u c have "fs s2 q = fs s1 q" by blast
    ultimately show "fs s1 q = Some (File i) \<and> fs s2 q = Some (File i)" by simp
  qed
  from a b p c show ?thesis by blast
qed

theorem Create_shares_inodes_witness:
  "home ex_driver \<noteq> [] \<and> valid_name ''b'' \<and> valid_name ''p'' \<and> ''b'' \<noteq> ''p'' \<and>
   fst (Create ex_driver ''b'' ''p'' [] ex_sys) = None \<and>
   fs ex_sys ''/h/p/root/f'' = Some (File 7) \<and>
   fs (snd (Create ex_driver ''b'' ''p'' [] ex_sys)) ''/h/b/root/f'' = Some (File 7) \<and>
   fs (snd (Create ex_driver ''b'' ''p'' [] ex_sys)) ''/h/p/root/f'' = Some (File 7) \<and>
   fst (Remove ex_driver ''p'' (snd (Create ex_driver ''b'' ''p'' [] ex_sys))) = None \<and>
   fs (snd (Remove ex_driver ''p'' (snd (Create ex_driver ''b'' ''p'' [] ex_sys)))) ''/h/p/root/f'' = None \<and>
   fs (snd (Remove ex_driver ''p'' (snd (Create ex_driver ''b'' ''p'' [] ex_sys)))) ''/h/b/root/f'' =
     Some (File 7)"
proof -
  let ?s1 = "snd (Create ex_driver ''b'' ''p'' [] ex_sys)"
  let ?R = "Remove ex_driver ''p'' ?s1"
  have h1: "home ex_driver \<noteq> []" by (simp add: ex_dirs)
  have ok: "fst (Create ex_driver ''b'' ''p'' [] ex_sys) = None"
    by (rule Create_run_ok [OF ex_quiet ex_sys_fields(2)])
       (simp_all add: ex_dirs ex_sys_fields ex_fs_def)
  then have c: "Create ex_driver ''b'' ''p'' [] ex_sys = (None, ?s1)" by (metis prod.collapse)
  have rm: "?R = (fst ?R, snd ?R)" by simp
  note t = Create_shares_inodes [OF h1 ex_dirs_more(5) ex_dirs_more(7) _ c rm]
  have b: "below (path_Join [dir ex_driver ''b'', ''root'']) ''/h/b/root/f''"
    by (simp add: ex_dirs_more below_def under_def dirprefix_def)
  have rb: "rebase (path_Join [dir ex_driver ''p'', ''root''])
              (path_Join [dir ex_driver ''b'', ''root'']) ''/h/b/root/f'' = ''/h/p/root/f''"
    by (simp add: ex_dirs ex_dirs_more rebase_def dirprefix_def)
  have f: "fs ex_sys ''/h/p/root/f'' = Some (File 7)" by (simp add: ex_sys_fields ex_fs_def)
  from t b rb f have k: "fs ?s1 ''/h/b/root/f'' = Some (File 7)"
    "fs (snd ?R) ''/h/b/root/f'' = Some (File 7)" by simp_all
  have q1: "quiet ?s1"
    using c ex_quiet
    by (auto simp: Create_def Create_rest_def Let_def fsop_defs os_Lstat_def quiet_def
        split: if_splits option.splits sum.splits)
  have u: "under (dir ex_driver ''p'') ''/h/p/root/f''"
    by (simp add: ex_dirs under_def dirprefix_def)
  from Remove_run [OF q1, of ex_driver "''p''"] u
  have g: "fst ?R = None" "fs (snd ?R) ''/h/p/root/f'' = None" by simp_all
  from t u f have k2: "fs ?s1 ''/h/p/root/f'' = Some (File 7)" by simp
  from h1 ok f k k2 g show ?thesis by (simp add: ex_dirs_more)
qed

end
